theory Spec2Isabelle
  imports Complex_Main "HOL-Library.AList" "HOL-Library.Log_Nat"
begin

section \<open>Conventions of the embedding\<close>

text \<open>
  The repository is JavaScript. The embedding follows these conventions.
  \<^item> A JavaScript string is a \<open>string\<close>; one \<open>char\<close> stands for one code unit, so
    \<open>length\<close> is the source's \<open>.length\<close>.
  \<^item> Positions, sizes and counters are \<open>int\<close>; \<open>Math.floor\<close> of a quotient of integers
    is \<open>div\<close>, which rounds towards minus infinity as \<open>Math.floor\<close> does. Configuration
    numbers are integers, as in \<open>config/default.json\<close>.
  \<^item> A thrown exception is the \<open>Inl\<close> of a sum; a loop that the source can run for ever
    is a \<^theory_text>\<open>partial_function\<close> in the option monad, \<open>None\<close> standing for a call that
    never returns.
  \<^item> An object used as a dictionary is an association list in insertion order
    (\<open>Object.keys\<close> and \<open>Object.entries\<close> enumerate string keys in that order). Keywords,
    question words and the identifiers that the collaborator names are arbitrary
    strings, so a lookup by one of them also finds the members every object inherits
    from \<open>Object.prototype\<close>. The identifiers stored in an index are segment identifiers;
    they are not such names (the segmenter ends them in \<open>_chunk_n\<close>) and are not written
    like array indices, so a lookup by a stored identifier is a lookup in the
    association list.
  \<^item> Where the source divides, its numbers are IEEE 754 doubles. A double is modelled by
    the rational it denotes, and each division, each multiplication and each addition of
    a quotient is followed by the rounding to 53 significant bits (nearest, ties to
    even). Sums and differences of lengths, counters and indices are integers below
    \<open>2^53\<close> and exact; overflow and subnormal numbers do not arise for the lengths and rates
    of the program.
  \<^item> \<open>Array.prototype.sort\<close> is stable; for a comparator that is a total preorder every
    stable sort returns the same array, which insertion sort computes.
\<close>

datatype js_error = TypeError string | Error string

subsection \<open>String and array primitives\<close>

definition substring :: "string \<Rightarrow> int \<Rightarrow> int \<Rightarrow> string" where
  \<comment> \<open>\<open>String.prototype.substring\<close>: both bounds are clamped to \<open>[0, length]\<close> and swapped
      when the first exceeds the second.\<close>
  "substring s a b =
     (let n = int (length s);
          a' = min (max a 0) n;
          b' = min (max b 0) n;
          lo = min a' b';
          hi = max a' b'
      in take (nat (hi - lo)) (drop (nat lo) s))"

definition slice :: "'a list \<Rightarrow> int \<Rightarrow> int \<Rightarrow> 'a list" where
  \<comment> \<open>\<open>Array.prototype.slice(a, b)\<close>: a negative bound counts from the end, both are
      clamped, and an empty range yields the empty array.\<close>
  "slice xs a b =
     (let n = int (length xs);
          a' = (if a < 0 then max (n + a) 0 else min a n);
          b' = (if b < 0 then max (n + b) 0 else min b n)
      in take (nat (b' - a')) (drop (nat a') xs))"

definition slice_from :: "'a list \<Rightarrow> int \<Rightarrow> 'a list" where
  \<comment> \<open>\<open>slice(a)\<close> with the end defaulted to the length.\<close>
  "slice_from xs a = slice xs a (int (length xs))"

definition digit_char :: "nat \<Rightarrow> char" where
  "digit_char d = ''0123456789'' ! d"

function string_of_nat :: "nat \<Rightarrow> string" where
  "string_of_nat n =
     (if n < 10 then [digit_char n] else string_of_nat (n div 10) @ [digit_char (n mod 10)])"
  by pat_completeness auto
termination
  by (relation "measure id") auto

definition strip_trailing_slashes :: "string \<Rightarrow> string" where
  "strip_trailing_slashes p = rev (dropWhile (\<lambda>c. c = CHR ''/'') (rev p))"

definition basename :: "string \<Rightarrow> string" where
  \<comment> \<open>\<open>path.basename\<close> (POSIX): the part after the last slash, trailing slashes ignored.\<close>
  "basename p = rev (takeWhile (\<lambda>c. c \<noteq> CHR ''/'') (rev (strip_trailing_slashes p)))"

subsection \<open>Double-precision arithmetic\<close>

definition pow2 :: "int \<Rightarrow> rat" where
  "pow2 e = (if 0 \<le> e then 2 ^ nat e else 1 / 2 ^ nat (- e))"

definition ilog2 :: "rat \<Rightarrow> int" where
  "ilog2 x = (case quotient_of x of (a, b) \<Rightarrow>
                let e = bitlen a - bitlen b in if pow2 e \<le> x then e else e - 1)"

definition round_half_even :: "rat \<Rightarrow> int" where
  "round_half_even x =
     (let f = \<lfloor>x\<rfloor>; d = x - of_int f
      in if d < 1 / 2 then f else if 1 / 2 < d then f + 1 else if even f then f else f + 1)"

text \<open>
  \<open>fl x\<close> is the double nearest to \<open>x\<close>: the significand of \<open>x\<close> scaled to 53 bits, rounded
  to the nearest integer (ties to even), and scaled back.
\<close>

definition fl :: "rat \<Rightarrow> rat" where
  "fl x = (if x = 0 then 0
           else let e = ilog2 \<bar>x\<bar> - 52
                in sgn x * of_int (round_half_even (\<bar>x\<bar> / pow2 e)) * pow2 e)"

definition js_div :: "rat \<Rightarrow> rat \<Rightarrow> rat" where
  "js_div x y = fl (x / y)"

definition js_mul :: "rat \<Rightarrow> rat \<Rightarrow> rat" where
  "js_mul x y = fl (x * y)"

definition js_add :: "rat \<Rightarrow> rat \<Rightarrow> rat" where
  "js_add x y = fl (x + y)"

section \<open>Segmenter: \<open>FileProcessor.splitIntoChunks\<close>\<close>

record Chunk =
  chunk_id :: string
  content :: string
  filePath :: string
  startPosition :: int
  endPosition :: int
  summary :: string
  chunk_keywords :: "string list"

definition new_Chunk :: "string \<Rightarrow> string \<Rightarrow> string \<Rightarrow> int \<Rightarrow> int \<Rightarrow> Chunk" where
  \<comment> \<open>The constructor of \<open>models/Chunk.js\<close> with \<open>summary\<close> and \<open>keywords\<close> defaulted.\<close>
  "new_Chunk i c p s e =
     \<lparr>chunk_id = i, content = c, filePath = p, startPosition = s, endPosition = e,
      summary = [], chunk_keywords = []\<rparr>"

record chunking_config =
  claudeMaxTokens :: int
  chunkSizePercentage :: int
  overlapPercentage :: int

definition tokensToCharsRatio :: int where
  "tokensToCharsRatio = 4"

definition maxChunkSize :: "chunking_config \<Rightarrow> int" where
  \<comment> \<open>\<open>Math.floor((claudeMaxTokens * chunkSizePercentage / 100) * tokensToCharsRatio)\<close>\<close>
  "maxChunkSize cfg =
     (claudeMaxTokens cfg * chunkSizePercentage cfg * tokensToCharsRatio) div 100"

definition chunkPadding :: "chunking_config \<Rightarrow> int" where
  \<comment> \<open>\<open>Math.floor(maxChunkSize * overlapPercentage / 200)\<close>\<close>
  "chunkPadding cfg = (maxChunkSize cfg * overlapPercentage cfg) div 200"

definition stride_chunk :: "int \<Rightarrow> int \<Rightarrow> string \<Rightarrow> string \<Rightarrow> int \<Rightarrow> nat \<Rightarrow> Chunk" where
  \<comment> \<open>The body of the \<open>while\<close> loop: the chunk pushed for the stride starting at
      \<open>currentStartingPosition\<close>.\<close>
  "stride_chunk M pad doc path currentStartingPosition chunkIndex =
     (let currentEndingPosition = min (currentStartingPosition + M) (int (length doc));
          paddedStartingPos = max 0 (currentStartingPosition - pad);
          paddedEndingPos = min (currentEndingPosition + pad) (int (length doc))
      in new_Chunk (basename path @ ''_chunk_'' @ string_of_nat chunkIndex)
           (substring doc paddedStartingPos paddedEndingPos) path
           paddedStartingPos (paddedEndingPos - 1))"

partial_function (option) split_loop ::
  "int \<Rightarrow> int \<Rightarrow> string \<Rightarrow> string \<Rightarrow> int \<Rightarrow> nat \<Rightarrow> Chunk list \<Rightarrow> Chunk list option" where
  "split_loop M pad doc path currentStartingPosition chunkIndex chunks =
     (if currentStartingPosition < int (length doc)
      then split_loop M pad doc path (currentStartingPosition + M) (Suc chunkIndex)
             (chunks @ [stride_chunk M pad doc path currentStartingPosition chunkIndex])
      else Some chunks)"

declare split_loop.simps [code]

definition splitIntoChunks :: "chunking_config \<Rightarrow> string \<Rightarrow> string \<Rightarrow> Chunk list option" where
  "splitIntoChunks cfg doc path =
     (if int (length doc) \<le> maxChunkSize cfg
      then Some [new_Chunk (basename path @ ''_chunk_1'') doc path 0 (int (length doc) - 1)]
      else split_loop (maxChunkSize cfg) (chunkPadding cfg) doc path 0 1 [])"

definition default_chunking :: chunking_config where
  \<comment> \<open>The values of \<open>config/default.json\<close>.\<close>
  "default_chunking =
     \<lparr>claudeMaxTokens = 100000, chunkSizePercentage = 40, overlapPercentage = 10\<rparr>"

definition small_chunking :: chunking_config where
  \<comment> \<open>A configuration with \<open>maxChunkSize = 4\<close> and \<open>chunkPadding = 1\<close>, for examples.\<close>
  "small_chunking =
     \<lparr>claudeMaxTokens = 1, chunkSizePercentage = 100, overlapPercentage = 50\<rparr>"

text \<open>What every chunk pushed by the loop satisfies, for a text \<open>doc\<close>.\<close>

definition stride_ok :: "int \<Rightarrow> int \<Rightarrow> string \<Rightarrow> Chunk \<Rightarrow> bool" where
  "stride_ok M pad doc c =
     (0 \<le> startPosition c \<and> startPosition c \<le> endPosition c
      \<and> endPosition c < int (length doc)
      \<and> int (length (content c)) = endPosition c + 1 - startPosition c
      \<and> int (length (content c)) \<le> M + 2 * pad
      \<and> content c = substring doc (startPosition c) (endPosition c + 1))"

section \<open>The language-model collaborator\<close>

text \<open>
  Every prompt of the program is a fixed template around a few values. A prompt is
  modelled by those values, one constructor per template (\<open>_buildChunkSelectionPrompt\<close>,
  \<open>_buildChunkPrompt\<close>, \<open>_generateFinalSummary\<close>, \<open>_mergeExchangesToSummary\<close>); the request
  options (temperature, system prompt) are constants of each call site. The collaborator
  \<open>ClaudeClient.sendPrompt\<close> is a parameter: it answers a prompt with a text or throws.
\<close>

datatype prompt =
    ChunkSelectionPrompt string "(string \<times> string) list" string
  | ChunkPrompt string string string string nat nat
  | FinalSummaryPrompt string string
  | MergeSummaryPrompt string string int

type_synonym claude = "prompt \<Rightarrow> js_error + string"

fun message :: "js_error \<Rightarrow> string" where
  "message (TypeError m) = m"
| "message (Error m) = m"

definition js_or :: "int option \<Rightarrow> int \<Rightarrow> int" where
  \<comment> \<open>\<open>config.get(key) || d\<close> for a number: \<open>undefined\<close> and \<open>0\<close> are falsy.\<close>
  "js_or v d = (case v of None \<Rightarrow> d | Some n \<Rightarrow> if n = 0 then d else n)"

definition js_whitespace :: "char \<Rightarrow> bool" where
  \<comment> \<open>The code units below 256 that \<open>\s\<close> and \<open>trim\<close> treat as white space.\<close>
  "js_whitespace c = (of_char c \<in> {9, 10, 11, 12, 13, 32, 160 :: nat})"

definition trim :: "string \<Rightarrow> string" where
  "trim s = rev (dropWhile js_whitespace (rev (dropWhile js_whitespace s)))"

definition newline :: char where
  "newline = CHR 0x0A"

section \<open>Index store and retriever: \<open>IndexManager\<close>\<close>

subsection \<open>JavaScript objects, sets and sorting\<close>

definition object_prototype_names :: "string list" where
  \<comment> \<open>The members of \<open>Object.prototype\<close>; each has a truthy value that is neither an
      array nor iterable.\<close>
  "object_prototype_names =
     [''constructor'', ''__defineGetter__'', ''__defineSetter__'', ''hasOwnProperty'',
      ''__lookupGetter__'', ''__lookupSetter__'', ''isPrototypeOf'', ''propertyIsEnumerable'',
      ''toString'', ''valueOf'', ''__proto__'', ''toLocaleString'']"

datatype 'a js_prop = Own 'a | Inherited | Undefined

definition js_get :: "(string \<times> 'a) list \<Rightarrow> string \<Rightarrow> 'a js_prop" where
  \<comment> \<open>\<open>obj[key]\<close> on an object created by a literal or by \<open>JSON.parse\<close>.\<close>
  "js_get obj k =
     (case map_of obj k of
        Some v \<Rightarrow> Own v
      | None \<Rightarrow> if k \<in> set object_prototype_names then Inherited else Undefined)"

definition set_insert :: "'a list \<Rightarrow> 'a \<Rightarrow> 'a list" where
  "set_insert acc x = (if x \<in> set acc then acc else acc @ [x])"

definition unique :: "'a list \<Rightarrow> 'a list" where
  \<comment> \<open>\<open>[...new Set(xs)]\<close>: a \<open>Set\<close> keeps the order of first insertion.\<close>
  "unique xs = foldl set_insert [] xs"

fun indexOf :: "'a list \<Rightarrow> 'a \<Rightarrow> int" where
  "indexOf [] x = - 1"
| "indexOf (y # ys) x = (if y = x then 0 else (let r = indexOf ys x in if r < 0 then - 1 else r + 1))"

definition to_lower_char :: "char \<Rightarrow> char" where
  \<comment> \<open>\<open>toLowerCase\<close> on a code unit below 256: the ASCII and Latin-1 capital letters.\<close>
  "to_lower_char c =
     (let n = (of_char c :: nat)
      in if (65 \<le> n \<and> n \<le> 90) \<or> (192 \<le> n \<and> n \<le> 222 \<and> n \<noteq> 215)
         then char_of (n + 32) else c)"

definition toLowerCase :: "string \<Rightarrow> string" where
  "toLowerCase s = map to_lower_char s"

fun split_acc :: "string \<Rightarrow> bool \<Rightarrow> string \<Rightarrow> string list" where
  "split_acc cur in_space [] = [cur]"
| "split_acc cur in_space (c # cs) =
     (if js_whitespace c
      then (if in_space then split_acc cur True cs else cur # split_acc [] True cs)
      else split_acc (cur @ [c]) False cs)"

definition split_whitespace :: "string \<Rightarrow> string list" where
  \<comment> \<open>\<open>s.split(/\s+/)\<close>\<close>
  "split_whitespace s = split_acc [] False s"

definition join :: "string \<Rightarrow> string list \<Rightarrow> string" where
  "join sep xs = (case xs of [] \<Rightarrow> [] | y # ys \<Rightarrow> y @ concat (map (\<lambda>z. sep @ z) ys))"

subsection \<open>Data\<close>

record stored_chunk =
  sc_id :: string
  sc_filePath :: string
  sc_summary :: string
  sc_keywords :: "string list"
  sc_startPosition :: int
  sc_endPosition :: int
  sc_content :: "string option"

record index_options =
  opt_name :: "string option"
  storeContent :: bool

record index =
  idx_id :: string
  idx_name :: string
  idx_createdAt :: string
  idx_updatedAt :: string
  idx_chunkCount :: nat
  idx_options :: index_options
  idx_keywordsIndex :: "(string \<times> string list) list"
  idx_chunks :: "(string \<times> stored_chunk) list"
  idx_overallSummary :: string

record index_files =
  indexes :: "string \<rightharpoonup> index"
  indexes_writable :: bool

record scored_chunk = Chunk +
  relevanceScore :: "int option"

record query_config =
  maxChunksPerQuery :: "int option"
  stopWords :: "string list option"
  useSplitStrategyForLargeIndices :: "bool option"
  llmChunkSize :: "int option"

datatype source_file = Missing | Unreadable string | Readable string

subsection \<open>\<open>createIndex\<close>\<close>

definition dash_other :: "char \<Rightarrow> char" where
  "dash_other c =
     (let n = (of_char c :: nat)
      in if (97 \<le> n \<and> n \<le> 122) \<or> (48 \<le> n \<and> n \<le> 57) then c else CHR ''-'')"

fun collapse_dashes :: "string \<Rightarrow> string" where
  "collapse_dashes (a # b # cs) =
     (if a = CHR ''-'' \<and> b = CHR ''-'' then collapse_dashes (b # cs)
      else a # collapse_dashes (b # cs))"
| "collapse_dashes cs = cs"

definition strip_one_dash :: "string \<Rightarrow> string" where
  "strip_one_dash s = (case s of [] \<Rightarrow> [] | c # cs \<Rightarrow> if c = CHR ''-'' then cs else s)"

definition normalizeIndexName :: "string \<Rightarrow> string" where
  "normalizeIndexName n =
     rev (strip_one_dash (rev (strip_one_dash
       (collapse_dashes (map dash_other (toLowerCase n))))))"

definition createOverallSummary :: "int option \<Rightarrow> Chunk list \<Rightarrow> string" where
  "createOverallSummary maxOverallSummaryLength cs =
     (let summaries = join [newline, newline] (map summary cs);
          maxSummaryLength = js_or maxOverallSummaryLength 2000
      in if int (length summaries) \<le> maxSummaryLength then summaries
         else substring summaries 0 maxSummaryLength @ ''...'')"

fun add_keywords ::
  "string \<Rightarrow> string list \<Rightarrow> (string \<times> string list) list
     \<Rightarrow> js_error + (string \<times> string list) list" where
  \<comment> \<open>The inner loop of \<open>createIndex\<close> for the chunk \<open>cid\<close>. A keyword that names an
      inherited member finds a truthy value without \<open>includes\<close>, and the call throws.\<close>
  "add_keywords cid [] kwi = Inr kwi"
| "add_keywords cid (keyword # rest) kwi =
     (case js_get kwi keyword of
        Undefined \<Rightarrow> add_keywords cid rest (AList.update keyword [cid] kwi)
      | Inherited \<Rightarrow> Inl (TypeError ''index.keywordsIndex[keyword].includes is not a function'')
      | Own ids \<Rightarrow>
          if cid \<in> set ids then add_keywords cid rest kwi
          else add_keywords cid rest (AList.update keyword (ids @ [cid]) kwi))"

definition store_chunk :: "bool \<Rightarrow> Chunk \<Rightarrow> stored_chunk" where
  "store_chunk keep c =
     \<lparr>sc_id = chunk_id c, sc_filePath = filePath c, sc_summary = summary c,
      sc_keywords = chunk_keywords c, sc_startPosition = startPosition c,
      sc_endPosition = endPosition c,
      sc_content = (if keep then Some (content c) else None)\<rparr>"

fun add_chunks ::
  "bool \<Rightarrow> Chunk list \<Rightarrow> (string \<times> string list) list \<Rightarrow> (string \<times> stored_chunk) list
     \<Rightarrow> js_error + (string \<times> string list) list \<times> (string \<times> stored_chunk) list" where
  \<comment> \<open>The outer loop of \<open>createIndex\<close>.\<close>
  "add_chunks keep [] kwi cks = Inr (kwi, cks)"
| "add_chunks keep (c # cs) kwi cks =
     (case add_keywords (chunk_id c) (chunk_keywords c) kwi of
        Inl e \<Rightarrow> Inl e
      | Inr kwi' \<Rightarrow> add_chunks keep cs kwi' (AList.update (chunk_id c) (store_chunk keep c) cks))"

definition index_identifier :: "index_options \<Rightarrow> string \<Rightarrow> string" where
  \<comment> \<open>\<open>options.name ? this._normalizeIndexName(options.name) : uuidv4()\<close>\<close>
  "index_identifier opts uuid =
     (case opt_name opts of
        None \<Rightarrow> uuid
      | Some n \<Rightarrow> if n = [] then uuid else normalizeIndexName n)"

definition build_index ::
  "int option \<Rightarrow> string \<Rightarrow> string \<Rightarrow> Chunk list \<Rightarrow> index_options \<Rightarrow> js_error + index" where
  \<comment> \<open>\<open>createIndex\<close> up to the write: the index object that is saved.\<close>
  "build_index maxOverallSummaryLength uuid now enrichedChunks opts =
     (let indexId = index_identifier opts uuid
      in case add_chunks (storeContent opts) enrichedChunks [] [] of
           Inl e \<Rightarrow> Inl e
         | Inr (kwi, cks) \<Rightarrow>
             Inr \<lparr>idx_id = indexId,
                  idx_name = (case opt_name opts of None \<Rightarrow> indexId
                              | Some n \<Rightarrow> if n = [] then indexId else n),
                  idx_createdAt = now, idx_updatedAt = now,
                  idx_chunkCount = length enrichedChunks, idx_options = opts,
                  idx_keywordsIndex = kwi, idx_chunks = cks,
                  idx_overallSummary = createOverallSummary maxOverallSummaryLength enrichedChunks\<rparr>)"

definition saveIndex :: "index_files \<Rightarrow> string \<Rightarrow> index \<Rightarrow> js_error + index_files" where
  "saveIndex fs indexId indexData =
     (if indexes_writable fs then Inr (fs\<lparr>indexes := (indexes fs)(indexId \<mapsto> indexData)\<rparr>)
      else Inl (Error ''Failed to save index: EACCES''))"

definition createIndex ::
  "int option \<Rightarrow> index_files \<Rightarrow> string \<Rightarrow> string \<Rightarrow> Chunk list \<Rightarrow> index_options
     \<Rightarrow> (js_error + string) \<times> index_files" where
  "createIndex maxOverallSummaryLength fs uuid now enrichedChunks opts =
     (case build_index maxOverallSummaryLength uuid now enrichedChunks opts of
        Inl e \<Rightarrow> (Inl (Error (''Failed to create index: '' @ message e)), fs)
      | Inr idx \<Rightarrow>
          (case saveIndex fs (idx_id idx) idx of
             Inl e \<Rightarrow> (Inl (Error (''Failed to create index: '' @ message e)), fs)
           | Inr fs' \<Rightarrow> (Inr (idx_id idx), fs')))"

definition loadIndex :: "index_files \<Rightarrow> string \<Rightarrow> index option" where
  "loadIndex fs indexId = indexes fs indexId"

subsection \<open>Retrieval strategies\<close>

text \<open>
  \<open>_parseRelevantChunkIds\<close> turns the collaborator's text into a list of identifiers with
  a regular expression and \<open>JSON.parse\<close>; its whole body is one \<open>try\<close> whose handler returns
  the empty list, so it never throws. It is a parameter of the strategies.
\<close>

type_synonym parser = "string \<Rightarrow> string list"

definition chunk_summaries :: "index \<Rightarrow> (string \<times> string) list" where
  \<comment> \<open>\<open>Object.entries(index.chunks)\<close> with \<open>chunk.summary || "No summary available"\<close>\<close>
  "chunk_summaries idx =
     map (\<lambda>(chunkId, chunk).
            (chunkId, if sc_summary chunk = [] then ''No summary available'' else sc_summary chunk))
         (idx_chunks idx)"

definition findRelevantChunksSimple :: "claude \<Rightarrow> parser \<Rightarrow> index \<Rightarrow> string \<Rightarrow> js_error + string list" where
  "findRelevantChunksSimple claude parseRelevantChunkIds idx q =
     (case claude (ChunkSelectionPrompt (idx_overallSummary idx) (chunk_summaries idx) q) of
        Inl e \<Rightarrow> Inl e
      | Inr response \<Rightarrow> Inr (parseRelevantChunkIds response))"

partial_function (option) group_loop ::
  "int \<Rightarrow> (string \<times> string) list \<Rightarrow> int \<Rightarrow> (string \<times> string) list list
     \<Rightarrow> (string \<times> string) list list option" where
  \<comment> \<open>\<open>for (let i = 0; i < allChunks.length; i += chunkSize) groups.push(...)\<close>\<close>
  "group_loop chunkSize allChunks i groups =
     (if i < int (length allChunks)
      then group_loop chunkSize allChunks (i + chunkSize)
             (groups @ [slice allChunks i (i + chunkSize)])
      else Some groups)"

declare group_loop.simps [code]

definition relevanceWeighted :: "nat \<Rightarrow> nat \<Rightarrow> string list \<Rightarrow> (string \<times> rat) list" where
  \<comment> \<open>\<open>chunkIds.map((id, index) => ({id, score: groups.length - i
        + (chunkIds.length - index) / chunkIds.length}))\<close>. The two differences are
      differences of integers; the quotient is rounded, and so is the sum.\<close>
  "relevanceWeighted n_groups i chunkIds =
     map (\<lambda>(cid, index).
            (cid, js_add (of_nat n_groups - of_nat i)
                    (js_div (of_nat (length chunkIds) - of_nat index)
                       (of_nat (length chunkIds)))))
         (zip chunkIds [0..<length chunkIds])"

fun process_groups ::
  "claude \<Rightarrow> parser \<Rightarrow> string \<Rightarrow> string \<Rightarrow> nat \<Rightarrow> nat \<Rightarrow> (string \<times> string) list list
     \<Rightarrow> (string \<times> rat) list \<Rightarrow> js_error + (string \<times> rat) list" where
  \<comment> \<open>The loop over the groups: one collaborator call per group, in order; a failed call
      ends the loop.\<close>
  "process_groups claude parseRelevantChunkIds overall q n_groups i [] groupResults =
     Inr groupResults"
| "process_groups claude parseRelevantChunkIds overall q n_groups i (g # gs) groupResults =
     (case claude (ChunkSelectionPrompt overall g q) of
        Inl e \<Rightarrow> Inl e
      | Inr response \<Rightarrow>
          process_groups claude parseRelevantChunkIds overall q n_groups (Suc i) gs
            (groupResults @ relevanceWeighted n_groups i (parseRelevantChunkIds response)))"

definition sort_by_score_desc :: "(string \<times> rat) list \<Rightarrow> (string \<times> rat) list" where
  \<comment> \<open>\<open>groupResults.sort((a, b) => b.score - a.score)\<close>\<close>
  "sort_by_score_desc groupResults = sort_key (\<lambda>item. - snd item) groupResults"

definition split_strategy_results ::
  "claude \<Rightarrow> parser \<Rightarrow> index \<Rightarrow> string \<Rightarrow> int \<Rightarrow> (js_error + (string \<times> rat) list) option" where
  \<comment> \<open>\<open>_findRelevantChunksWithSplitStrategy\<close> up to the sorted \<open>groupResults\<close>.\<close>
  "split_strategy_results claude parseRelevantChunkIds idx q chunkSize =
     (case group_loop chunkSize (chunk_summaries idx) 0 [] of
        None \<Rightarrow> None
      | Some groups \<Rightarrow>
          Some (case process_groups claude parseRelevantChunkIds (idx_overallSummary idx) q
                       (length groups) 0 groups [] of
                  Inl e \<Rightarrow> Inl e
                | Inr groupResults \<Rightarrow> Inr (sort_by_score_desc groupResults)))"

definition findRelevantChunksWithSplitStrategy ::
  "claude \<Rightarrow> parser \<Rightarrow> index \<Rightarrow> string \<Rightarrow> int \<Rightarrow> (js_error + string list) option" where
  "findRelevantChunksWithSplitStrategy claude parseRelevantChunkIds idx q chunkSize =
     (case split_strategy_results claude parseRelevantChunkIds idx q chunkSize of
        None \<Rightarrow> None
      | Some (Inl e) \<Rightarrow> Some (Inl e)
      | Some (Inr groupResults) \<Rightarrow> Some (Inr (unique (map fst groupResults))))"

definition readChunkFromFile :: "(string \<Rightarrow> source_file) \<Rightarrow> string \<Rightarrow> int \<Rightarrow> int \<Rightarrow> string" where
  \<comment> \<open>\<open>_readChunkFromFile\<close> catches every failure and returns a placeholder.\<close>
  "readChunkFromFile src path s e =
     (case src path of
        Missing \<Rightarrow> ''[Content not available - source file not found: '' @ path @ '']''
      | Unreadable msg \<Rightarrow> ''[Error reading content: '' @ msg @ '']''
      | Readable body \<Rightarrow> substring body s (e + 1))"

definition chunk_content :: "(string \<Rightarrow> source_file) \<Rightarrow> stored_chunk \<Rightarrow> string" where
  \<comment> \<open>\<open>if (!chunk.content) chunk.content = await this._readChunkFromFile(...)\<close>\<close>
  "chunk_content src chunk =
     (case sc_content chunk of
        None \<Rightarrow> readChunkFromFile src (sc_filePath chunk) (sc_startPosition chunk) (sc_endPosition chunk)
      | Some c \<Rightarrow>
          if c = []
          then readChunkFromFile src (sc_filePath chunk) (sc_startPosition chunk) (sc_endPosition chunk)
          else c)"

definition scored :: "stored_chunk \<Rightarrow> string \<Rightarrow> int \<Rightarrow> scored_chunk" where
  \<comment> \<open>\<open>{...chunk, relevanceScore}\<close> for a chunk whose \<open>content\<close> reads \<open>c\<close>\<close>
  "scored chunk c n =
     \<lparr>chunk_id = sc_id chunk, content = c, filePath = sc_filePath chunk,
      startPosition = sc_startPosition chunk, endPosition = sc_endPosition chunk,
      summary = sc_summary chunk, chunk_keywords = sc_keywords chunk,
      relevanceScore = Some n\<rparr>"

definition with_score :: "(string \<Rightarrow> source_file) \<Rightarrow> stored_chunk \<Rightarrow> int \<Rightarrow> scored_chunk" where
  \<comment> \<open>The chunk pushed by the keyword strategy, its content read when it is not stored.\<close>
  "with_score src chunk n = scored chunk (chunk_content src chunk) n"

definition score_key :: "scored_chunk \<Rightarrow> int" where
  "score_key c = (case relevanceScore c of None \<Rightarrow> 0 | Some n \<Rightarrow> n)"

definition default_stopWords :: "string list" where
  "default_stopWords =
     [''a'', ''an'', ''the'', ''and'', ''or'', ''but'', ''is'', ''are'', ''of'', ''to'', ''in'',
      ''on'', ''by'', ''with'', ''about'', ''for'', ''from'']"

definition punctuation :: string where
  \<comment> \<open>The class of the regular expression in \<open>_extractKeywordsFromQuestion\<close>.\<close>
  "punctuation =
     [CHR ''.'', CHR '','', CHR ''/'', CHR ''#'', CHR ''!'', CHR ''$'', CHR ''%'', CHR 0x5E,
      CHR ''&'', CHR ''*'', CHR '';'', CHR '':'', CHR ''{'', CHR ''}'', CHR ''='', CHR ''-'',
      CHR ''_'', CHR 0x60, CHR ''~'', CHR ''('', CHR '')'']"

definition extractKeywordsFromQuestion :: "query_config \<Rightarrow> string \<Rightarrow> string list" where
  "extractKeywordsFromQuestion cfg q =
     (let stops = (case stopWords cfg of None \<Rightarrow> default_stopWords | Some ws \<Rightarrow> ws);
          cleanQuestion = filter (\<lambda>c. c \<notin> set punctuation) (toLowerCase q);
          ws = filter (\<lambda>w. length w > 2 \<and> toLowerCase w \<notin> set stops)
                 (split_whitespace cleanQuestion)
      in unique ws)"

definition bump :: "(string \<times> int) list \<Rightarrow> string \<Rightarrow> (string \<times> int) list" where
  \<comment> \<open>\<open>if (!chunkScores[chunkId]) chunkScores[chunkId] = 0; chunkScores[chunkId] += 1\<close>\<close>
  "bump chunkScores chunkId =
     AList.update chunkId (case map_of chunkScores chunkId of None \<Rightarrow> 1 | Some n \<Rightarrow> n + 1)
       chunkScores"

fun score_keywords ::
  "index \<Rightarrow> string list \<Rightarrow> (string \<times> int) list \<Rightarrow> js_error + (string \<times> int) list" where
  \<comment> \<open>\<open>const matchingChunkIds = index.keywordsIndex[keyword] || []\<close> and the loop over it.
      A word that names an inherited member finds a value that cannot be iterated.\<close>
  "score_keywords idx [] chunkScores = Inr chunkScores"
| "score_keywords idx (keyword # rest) chunkScores =
     (case js_get (idx_keywordsIndex idx) keyword of
        Undefined \<Rightarrow> score_keywords idx rest chunkScores
      | Inherited \<Rightarrow> Inl (TypeError ''matchingChunkIds is not iterable'')
      | Own matchingChunkIds \<Rightarrow>
          score_keywords idx rest (foldl bump chunkScores matchingChunkIds))"

fun collect_chunks ::
  "(string \<Rightarrow> source_file) \<Rightarrow> index \<Rightarrow> (string \<times> int) list \<Rightarrow> js_error + scored_chunk list" where
  \<comment> \<open>The last loop of the keyword strategy: \<open>chunk.content\<close> throws when
      \<open>index.chunks[chunkId]\<close> is \<open>undefined\<close>.\<close>
  "collect_chunks src idx [] = Inr []"
| "collect_chunks src idx ((chunkId, n) # rest) =
     (case map_of (idx_chunks idx) chunkId of
        None \<Rightarrow> Inl (TypeError ''Cannot read properties of undefined (reading content)'')
      | Some chunk \<Rightarrow>
          (case collect_chunks src idx rest of
             Inl e \<Rightarrow> Inl e
           | Inr cs \<Rightarrow> Inr (with_score src chunk n # cs)))"

definition findRelevantChunksWithKeywords ::
  "query_config \<Rightarrow> (string \<Rightarrow> source_file) \<Rightarrow> index \<Rightarrow> string \<Rightarrow> js_error + scored_chunk list" where
  \<comment> \<open>The handler of this function logs and throws the error again. A missing
      \<open>maxChunksPerQuery\<close> makes the loop bound \<open>NaN\<close>, and the loop body never runs.\<close>
  "findRelevantChunksWithKeywords cfg src idx q =
     (case score_keywords idx (extractKeywordsFromQuestion cfg q) [] of
        Inl e \<Rightarrow> Inl e
      | Inr chunkScores \<Rightarrow>
          (let sortedChunkIds = sort_key (\<lambda>item. - snd item) chunkScores;
               bound = (case maxChunksPerQuery cfg of None \<Rightarrow> 0
                        | Some m \<Rightarrow> min (int (length sortedChunkIds)) m)
           in collect_chunks src idx (take (nat bound) sortedChunkIds)))"

definition primary_strategy ::
  "query_config \<Rightarrow> claude \<Rightarrow> parser \<Rightarrow> index \<Rightarrow> string \<Rightarrow> (js_error + string list) option" where
  \<comment> \<open>The choice between the two strategies at the head of \<open>findRelevantChunks\<close>.\<close>
  "primary_strategy cfg claude parseRelevantChunkIds idx q =
     (let useChunking = (case useSplitStrategyForLargeIndices cfg of None \<Rightarrow> False | Some b \<Rightarrow> b);
          chunkSize = js_or (llmChunkSize cfg) 50
      in if int (length (idx_chunks idx)) > chunkSize \<and> useChunking
         then findRelevantChunksWithSplitStrategy claude parseRelevantChunkIds idx q chunkSize
         else Some (findRelevantChunksSimple claude parseRelevantChunkIds idx q))"

text \<open>
  The loop of \<open>findRelevantChunks\<close> over the identifiers that the strategy returned.
  These come from the collaborator, so \<open>index.chunks[chunkId]\<close> is the full lookup:
  \<^item> an identifier that is no key and no inherited name is skipped with a warning;
  \<^item> a key gives its chunk. \<open>chunk.content\<close> reads the chunk's own property, or the one
    inherited from \<open>Object.prototype\<close> if the loop has given it one (see below); when
    that is missing or empty, the content is read from the file and assigned to the
    chunk of the index;
  \<^item> an inherited name gives a member of \<open>Object.prototype\<close>, which is truthy and has no
    \<open>content\<close>, \<open>filePath\<close> or positions. \<open>_readChunkFromFile\<close> is called with
    \<open>undefined\<close> arguments, finds no such file (\<open>pathExists\<close> answers \<open>false\<close> for a path
    that is not a string) and returns its placeholder, which is assigned to the member;
    the object pushed has that content and the score and nothing else. For the name
    \<open>__proto__\<close> the member is \<open>Object.prototype\<close> itself, and from then on every object
    without a \<open>content\<close> of its own reads the placeholder, and \<open>content\<close> is an inherited
    name too: its value is the placeholder, a string, and the object pushed for it has
    the characters of that string as indexed properties, and the score.

  The flag \<open>polluted\<close> records whether \<open>Object.prototype\<close> has been given a \<open>content\<close>; it
  has none when the process starts, and the embedding is of a call made in that state.
\<close>

definition missing_path_content :: string where
  "missing_path_content = ''[Content not available - source file not found: undefined]''"

datatype relevant_chunk =
  StoredChunk scored_chunk
| PrototypeMember string int
| PlaceholderCharacters string int

fun relevance :: "relevant_chunk \<Rightarrow> int" where
  "relevance (StoredChunk c) = score_key c"
| "relevance (PrototypeMember c n) = n"
| "relevance (PlaceholderCharacters c n) = n"

definition effective_content :: "bool \<Rightarrow> stored_chunk \<Rightarrow> string option" where
  \<comment> \<open>What \<open>chunk.content\<close> reads for a chunk of the index.\<close>
  "effective_content polluted chunk =
     (case sc_content chunk of
        Some c \<Rightarrow> Some c
      | None \<Rightarrow> if polluted then Some missing_path_content else None)"

definition truthy :: "string option \<Rightarrow> string option" where
  \<comment> \<open>\<open>!chunk.content\<close> holds for a missing and for an empty string.\<close>
  "truthy v = (case v of None \<Rightarrow> None | Some c \<Rightarrow> if c = [] then None else Some c)"

fun load_chunks ::
  "(string \<Rightarrow> source_file) \<Rightarrow> string list \<Rightarrow> (string \<times> stored_chunk) list \<Rightarrow> bool
     \<Rightarrow> string list \<Rightarrow> relevant_chunk list" where
  "load_chunks src relevantChunkIds chunks polluted [] = []"
| "load_chunks src relevantChunkIds chunks polluted (chunkId # rest) =
     (let n = indexOf relevantChunkIds chunkId
      in case js_get chunks chunkId of
           Undefined \<Rightarrow>
             if polluted \<and> chunkId = ''content''
             then PlaceholderCharacters missing_path_content n
                    # load_chunks src relevantChunkIds chunks polluted rest
             else load_chunks src relevantChunkIds chunks polluted rest
         | Inherited \<Rightarrow>
             PrototypeMember missing_path_content n
               # load_chunks src relevantChunkIds chunks
                   (polluted \<or> chunkId = ''__proto__'') rest
         | Own chunk \<Rightarrow>
             (case truthy (effective_content polluted chunk) of
                Some c \<Rightarrow>
                  StoredChunk (scored chunk c n)
                    # load_chunks src relevantChunkIds chunks polluted rest
              | None \<Rightarrow>
                  (let c = readChunkFromFile src (sc_filePath chunk)
                             (sc_startPosition chunk) (sc_endPosition chunk)
                   in StoredChunk (scored chunk c n)
                        # load_chunks src relevantChunkIds
                            (AList.update chunkId (chunk\<lparr>sc_content := Some c\<rparr>) chunks)
                            polluted rest)))"

definition load_relevant ::
  "(string \<Rightarrow> source_file) \<Rightarrow> index \<Rightarrow> int \<Rightarrow> string list \<Rightarrow> relevant_chunk list" where
  \<comment> \<open>The part of \<open>findRelevantChunks\<close> after the strategy: the first
      \<open>maxChunksToReturn\<close> identifiers are looked up, scored by their position in the whole
      list, and the result is sorted by that score.\<close>
  "load_relevant src idx maxChunksToReturn relevantChunkIds =
     sort_key relevance
       (load_chunks src relevantChunkIds (idx_chunks idx) False
          (slice relevantChunkIds 0 maxChunksToReturn))"

definition findRelevantChunks ::
  "query_config \<Rightarrow> claude \<Rightarrow> parser \<Rightarrow> (string \<Rightarrow> source_file) \<Rightarrow> index \<Rightarrow> string
     \<Rightarrow> (js_error + relevant_chunk list) option" where
  \<comment> \<open>The handler of the \<open>try\<close> returns the call of the keyword strategy: its list, or
      the error it throws.\<close>
  "findRelevantChunks cfg claude parseRelevantChunkIds src idx q =
     (case primary_strategy cfg claude parseRelevantChunkIds idx q of
        None \<Rightarrow> None
      | Some (Inl e) \<Rightarrow>
          Some (case findRelevantChunksWithKeywords cfg src idx q of
                  Inl e' \<Rightarrow> Inl e'
                | Inr relevantChunks \<Rightarrow> Inr (map StoredChunk relevantChunks))
      | Some (Inr relevantChunkIds) \<Rightarrow>
          Some (Inr (load_relevant src idx (js_or (maxChunksPerQuery cfg) 5) relevantChunkIds)))"

definition default_query_config :: query_config where
  "default_query_config =
     \<lparr>maxChunksPerQuery = Some 5, stopWords = Some default_stopWords,
      useSplitStrategyForLargeIndices = Some True, llmChunkSize = Some 50\<rparr>"

definition failing_claude :: claude where
  \<comment> \<open>A collaborator whose every call fails, as \<open>sendPrompt\<close> reports it.\<close>
  "failing_claude p = Inl (Error ''Failed to get response from Claude: overloaded'')"

definition empty_index :: index where
  \<comment> \<open>The index that \<open>createIndex\<close> builds from no chunks.\<close>
  "empty_index =
     \<lparr>idx_id = ''doc'', idx_name = ''doc'', idx_createdAt = ''t'', idx_updatedAt = ''t'',
      idx_chunkCount = 0, idx_options = \<lparr>opt_name = Some ''doc'', storeContent = False\<rparr>,
      idx_keywordsIndex = [], idx_chunks = [], idx_overallSummary = []\<rparr>"

definition descending :: "(string \<times> rat) list \<Rightarrow> bool" where
  \<comment> \<open>Sorted by score, highest first.\<close>
  "descending items = sorted (map (\<lambda>item. - snd item) items)"

definition group_ids ::
  "claude \<Rightarrow> parser \<Rightarrow> string \<Rightarrow> string \<Rightarrow> (string \<times> string) list \<Rightarrow> string list" where
  \<comment> \<open>The identifiers that the collaborator returns for one group.\<close>
  "group_ids claude parseIds overall q g =
     (case claude (ChunkSelectionPrompt overall g q) of
        Inl e \<Rightarrow> []
      | Inr response \<Rightarrow> parseIds response)"

text \<open>
  The concatenation of the scored results of the groups, in the order of the groups:
  the list the specification describes before sorting.
\<close>

fun concatenated_scores :: "nat \<Rightarrow> nat \<Rightarrow> string list list \<Rightarrow> (string \<times> rat) list" where
  "concatenated_scores G i [] = []"
| "concatenated_scores G i (ids # rest) =
     relevanceWeighted G i ids @ concatenated_scores G (Suc i) rest"

definition no_ids :: parser where
  "no_ids response = []"

definition ab_ids :: parser where
  "ab_ids response = [''a'', ''b'']"

definition bab_ids :: parser where
  "bab_ids response = [''b'', ''a'', ''b'']"

definition no_files :: "string \<Rightarrow> source_file" where
  "no_files path = Missing"

definition summarised :: "string \<Rightarrow> string list \<Rightarrow> stored_chunk" where
  "summarised i ks =
     \<lparr>sc_id = i, sc_filePath = ''doc.txt'', sc_summary = ''About '' @ i, sc_keywords = ks,
      sc_startPosition = 0, sc_endPosition = 9, sc_content = Some ''0123456789''\<rparr>"

definition three_chunks :: index where
  \<comment> \<open>An index of three chunks \<open>a\<close>, \<open>b\<close>, \<open>c\<close>, for examples.\<close>
  "three_chunks =
     empty_index\<lparr>idx_chunkCount := 3,
       idx_chunks := [(''a'', summarised ''a'' []), (''b'', summarised ''b'' []),
                      (''c'', summarised ''c'' [])]\<rparr>"

definition guide_chunks :: "Chunk list" where
  \<comment> \<open>Two enriched chunks of a file \<open>guide.txt\<close>, for examples.\<close>
  "guide_chunks =
     [\<lparr>chunk_id = ''guide.txt_chunk_1'', content = ''Welcome'', filePath = ''guide.txt'',
       startPosition = 0, endPosition = 6, summary = ''Introduction'',
       chunk_keywords = [''welcome'']\<rparr>,
      \<lparr>chunk_id = ''guide.txt_chunk_2'', content = ''Plans and prices'', filePath = ''guide.txt'',
       startPosition = 7, endPosition = 22, summary = ''The price list'',
       chunk_keywords = [''pricing'']\<rparr>]"

definition guide_index :: index where
  \<comment> \<open>The index that \<open>createIndex\<close> builds from \<open>guide_chunks\<close> under the name \<open>Guide\<close>.\<close>
  "guide_index =
     \<lparr>idx_id = ''guide'', idx_name = ''Guide'', idx_createdAt = ''t'', idx_updatedAt = ''t'',
      idx_chunkCount = 2, idx_options = \<lparr>opt_name = Some ''Guide'', storeContent = True\<rparr>,
      idx_keywordsIndex = [(''welcome'', [''guide.txt_chunk_1'']),
                           (''pricing'', [''guide.txt_chunk_2''])],
      idx_chunks = [(''guide.txt_chunk_1'', store_chunk True (guide_chunks ! 0)),
                    (''guide.txt_chunk_2'', store_chunk True (guide_chunks ! 1))],
      idx_overallSummary = ''Introduction'' @ [newline, newline] @ ''The price list''\<rparr>"

definition unstored :: "string \<Rightarrow> stored_chunk" where
  \<comment> \<open>A chunk of an index that does not store content.\<close>
  "unstored i = (summarised i [])\<lparr>sc_content := None\<rparr>"

definition named_ids :: parser where
  \<comment> \<open>A response that names a chunk, an inherited member and an unknown identifier.\<close>
  "named_ids response = [''guide.txt_chunk_2'', ''constructor'', ''guide.txt_chunk_9'']"

definition created_index ::
  "int option \<Rightarrow> index_files \<Rightarrow> string \<Rightarrow> string \<Rightarrow> Chunk list \<Rightarrow> index_options
     \<Rightarrow> index option" where
  \<comment> \<open>\<open>loadIndex(createIndex(...))\<close>: the index stored under the identifier that
      \<open>createIndex\<close> returned, if it returned one.\<close>
  "created_index m fs uuid now cs opts =
     (case createIndex m fs uuid now cs opts of
        (Inl e, fs') \<Rightarrow> None
      | (Inr indexId, fs') \<Rightarrow> loadIndex fs' indexId)"

definition pricing_chunk :: Chunk where
  \<comment> \<open>An enriched chunk whose keyword begins with a capital letter, for examples.\<close>
  "pricing_chunk =
     \<lparr>chunk_id = ''doc_chunk_2'', content = ''Plans and prices'', filePath = ''doc.txt'',
      startPosition = 0, endPosition = 15, summary = ''The price list'',
      chunk_keywords = [''Pricing'']\<rparr>"

definition values_within :: "string set \<Rightarrow> (string \<times> string list) list \<Rightarrow> bool" where
  \<comment> \<open>Every identifier list of the keyword dictionary is duplicate-free and drawn
      from \<open>S\<close>.\<close>
  "values_within S kwi = (\<forall>k ids. map_of kwi k = Some ids \<longrightarrow> distinct ids \<and> set ids \<subseteq> S)"

section \<open>Conversation store: \<open>ConversationManager\<close>\<close>

record exchange =
  ex_timestamp :: string
  ex_question :: string
  ex_answer :: string

record conversation =
  conv_id :: string
  conv_indexId :: string
  createdAt :: string
  updatedAt :: string
  recentExchanges :: "exchange list"
  historySummary :: string
  exchangeCount :: int
  lastMergeCount :: int

record conversation_config =
  maxRecentExchanges :: "int option"
  maxSummaryTokens :: "int option"
  mergeFrequency :: "int option"

text \<open>
  The directory \<open>data/conversations\<close>: one file per conversation identifier. A write fails
  (and \<open>_saveConversation\<close> throws) when the directory is not writable.
\<close>

record conversation_files =
  files :: "string \<rightharpoonup> conversation"
  writable :: bool

definition saveConversation ::
  "conversation_files \<Rightarrow> string \<Rightarrow> conversation \<Rightarrow> js_error + conversation_files" where
  "saveConversation fs conversationId conversationData =
     (if writable fs then Inr (fs\<lparr>files := (files fs)(conversationId \<mapsto> conversationData)\<rparr>)
      else Inl (Error ''Failed to save conversation: EACCES''))"

definition getConversation :: "conversation_files \<Rightarrow> string \<Rightarrow> conversation option" where
  "getConversation fs conversationId = files fs conversationId"

definition createConversation ::
  "conversation_files \<Rightarrow> string \<Rightarrow> string \<Rightarrow> string
     \<Rightarrow> (js_error + conversation) \<times> conversation_files" where
  \<comment> \<open>\<open>uuid\<close> is the value of \<open>uuidv4()\<close> and \<open>now\<close> that of \<open>new Date().toISOString()\<close>.\<close>
  "createConversation fs uuid now indexId =
     (let conversation =
            \<lparr>conv_id = uuid, conv_indexId = indexId, createdAt = now, updatedAt = now,
             recentExchanges = [], historySummary = [], exchangeCount = 0,
             lastMergeCount = 0\<rparr>
      in case saveConversation fs uuid conversation of
           Inl e \<Rightarrow> (Inl (Error (''Failed to create conversation: '' @ message e)), fs)
         | Inr fs' \<Rightarrow> (Inr conversation, fs'))"

definition deleteConversation ::
  "conversation_files \<Rightarrow> string \<Rightarrow> (js_error + bool) \<times> conversation_files" where
  "deleteConversation fs conversationId =
     (case files fs conversationId of
        None \<Rightarrow> (Inr False, fs)
      | Some _ \<Rightarrow>
          if writable fs then (Inr True, fs\<lparr>files := (files fs)(conversationId := None)\<rparr>)
          else (Inl (Error ''Failed to delete conversation: EACCES''), fs))"

definition createConversationSummary :: "claude \<Rightarrow> prompt \<Rightarrow> js_error + string" where
  \<comment> \<open>\<open>ClaudeClient.createConversationSummary\<close>: the trimmed response, or the failure
      wrapped.\<close>
  "createConversationSummary claude p =
     (case claude p of
        Inl e \<Rightarrow> Inl (Error (''Failed to create conversation summary: '' @ message e))
      | Inr response \<Rightarrow> Inr (trim response))"

definition exchangesText :: "exchange list \<Rightarrow> string" where
  "exchangesText es =
     concat (map (\<lambda>e. ''User: '' @ ex_question e @ [newline, newline]
                       @ ''Assistant: '' @ ex_answer e @ [newline, newline]) es)"

definition mergeExchangesToSummary ::
  "conversation_config \<Rightarrow> claude \<Rightarrow> conversation \<Rightarrow> int \<Rightarrow> conversation" where
  \<comment> \<open>\<open>_mergeExchangesToSummary\<close>. The list is trimmed before the collaborator is called;
      a failure of the call is caught and leaves summary and merge count as they were.\<close>
  "mergeExchangesToSummary cfg claude conv maxRecent =
     (let n = int (length (recentExchanges conv));
          exchangesToMerge = slice (recentExchanges conv) 0 (n - maxRecent);
          conv1 = conv\<lparr>recentExchanges := slice_from (recentExchanges conv) (n - maxRecent)\<rparr>
      in if exchangesToMerge = [] then conv1
         else (case createConversationSummary claude
                      (MergeSummaryPrompt (historySummary conv1) (exchangesText exchangesToMerge)
                         (js_or (maxSummaryTokens cfg) 500)) of
                 Inl e \<Rightarrow> conv1
               | Inr newSummary \<Rightarrow>
                   conv1\<lparr>historySummary := newSummary, lastMergeCount := exchangeCount conv1\<rparr>))"

definition addExchange ::
  "conversation_config \<Rightarrow> claude \<Rightarrow> string \<Rightarrow> conversation_files \<Rightarrow> string \<Rightarrow> string \<Rightarrow> string
     \<Rightarrow> (js_error + conversation) \<times> conversation_files" where
  "addExchange cfg claude now fs conversationId q a =
     (case getConversation fs conversationId of
        None \<Rightarrow>
          (Inl (Error (''Failed to add exchange: Conversation '' @ conversationId @ '' not found'')),
           fs)
      | Some conversation \<Rightarrow>
          (let exchange = \<lparr>ex_timestamp = now, ex_question = q, ex_answer = a\<rparr>;
               maxRecent = js_or (maxRecentExchanges cfg) 5;
               mergeFreq = js_or (mergeFrequency cfg) 3;
               conv1 = conversation
                 \<lparr>recentExchanges := recentExchanges conversation @ [exchange],
                  exchangeCount := exchangeCount conversation + 1,
                  updatedAt := now\<rparr>;
               conv2 =
                 (if int (length (recentExchanges conv1)) > maxRecent
                     \<and> exchangeCount conv1 - lastMergeCount conv1 \<ge> mergeFreq
                  then mergeExchangesToSummary cfg claude conv1 maxRecent
                  else conv1)
           in case saveConversation fs conversationId conv2 of
                Inl e \<Rightarrow> (Inl (Error (''Failed to add exchange: '' @ message e)), fs)
              | Inr fs' \<Rightarrow> (Inr conv2, fs')))"

text \<open>
  A sequence of \<open>addExchange\<close> calls on one conversation, each with its timestamp,
  question and answer; the results of the calls are collected in order.
\<close>

fun addExchanges ::
  "conversation_config \<Rightarrow> claude \<Rightarrow> conversation_files \<Rightarrow> string
     \<Rightarrow> (string \<times> string \<times> string) list
     \<Rightarrow> (js_error + conversation) list \<times> conversation_files" where
  "addExchanges cfg claude fs conversationId [] = ([], fs)"
| "addExchanges cfg claude fs conversationId ((now, q, a) # calls) =
     (case addExchange cfg claude now fs conversationId q a of
        (r, fs') \<Rightarrow>
          (case addExchanges cfg claude fs' conversationId calls of
             (rs, fs'') \<Rightarrow> (r # rs, fs'')))"

text \<open>
  The states of the store that the operations of \<open>ConversationManager\<close> can reach from
  the empty directory, the collaborator answering each call in any way.
\<close>

inductive reachable :: "conversation_config \<Rightarrow> conversation_files \<Rightarrow> bool"
  for cfg :: conversation_config where
    reach_empty: "reachable cfg \<lparr>files = Map.empty, writable = w\<rparr>"
  | reach_chmod: "reachable cfg fs \<Longrightarrow> reachable cfg (fs\<lparr>writable := w\<rparr>)"
  | reach_create:
      "reachable cfg fs \<Longrightarrow> createConversation fs uuid now indexId = (r, fs')
         \<Longrightarrow> reachable cfg fs'"
  | reach_add:
      "reachable cfg fs \<Longrightarrow> addExchange cfg claude now fs conversationId q a = (r, fs')
         \<Longrightarrow> reachable cfg fs'"
  | reach_delete:
      "reachable cfg fs \<Longrightarrow> deleteConversation fs conversationId = (r, fs')
         \<Longrightarrow> reachable cfg fs'"

definition default_conversation_config :: conversation_config where
  "default_conversation_config =
     \<lparr>maxRecentExchanges = Some 5, maxSummaryTokens = Some 500, mergeFrequency = Some 3\<rparr>"

definition echo_claude :: claude where
  \<comment> \<open>A collaborator that always answers, for examples.\<close>
  "echo_claude p = Inr ''summary''"

text \<open>
  The two steps of \<open>addExchange\<close> on the conversation it loaded: the push, and the
  compaction when its trigger fires.
\<close>

definition pushed :: "conversation \<Rightarrow> string \<Rightarrow> string \<Rightarrow> string \<Rightarrow> conversation" where
  "pushed c now q a =
     c\<lparr>recentExchanges := recentExchanges c @ [\<lparr>ex_timestamp = now, ex_question = q, ex_answer = a\<rparr>],
       exchangeCount := exchangeCount c + 1, updatedAt := now\<rparr>"

definition compacted :: "conversation_config \<Rightarrow> claude \<Rightarrow> conversation \<Rightarrow> conversation" where
  "compacted cfg claude c1 =
     (if int (length (recentExchanges c1)) > js_or (maxRecentExchanges cfg) 5
         \<and> exchangeCount c1 - lastMergeCount c1 \<ge> js_or (mergeFrequency cfg) 3
      then mergeExchangesToSummary cfg claude c1 (js_or (maxRecentExchanges cfg) 5)
      else c1)"

text \<open>
  The invariant of a stored conversation: the merge count never exceeds the exchange
  count, and the recent list exceeds \<open>maxRecentExchanges\<close> by no more than the number of
  exchanges since the last merge, which is then below \<open>mergeFrequency\<close>.
\<close>

definition conv_inv :: "conversation_config \<Rightarrow> conversation \<Rightarrow> bool" where
  "conv_inv cfg c =
     (let M = js_or (maxRecentExchanges cfg) 5;
          F = js_or (mergeFrequency cfg) 3;
          n = int (length (recentExchanges c));
          d = exchangeCount c - lastMergeCount c
      in 0 \<le> d \<and> (n \<le> M \<or> (n - M \<le> d \<and> d < F)))"

definition recent_length :: "js_error + conversation \<Rightarrow> int" where
  \<comment> \<open>The length of \<open>recentExchanges\<close> in the conversation a call returned; -1 for a throw.\<close>
  "recent_length r = (case r of Inl e \<Rightarrow> - 1 | Inr c \<Rightarrow> int (length (recentExchanges c)))"

definition two_exchanges :: conversation where
  "two_exchanges =
     \<lparr>conv_id = ''c1'', conv_indexId = ''idx'', createdAt = ''t0'', updatedAt = ''t'',
      recentExchanges = [\<lparr>ex_timestamp = ''t'', ex_question = ''q'', ex_answer = ''a''\<rparr>,
                         \<lparr>ex_timestamp = ''t'', ex_question = ''q'', ex_answer = ''a''\<rparr>],
      historySummary = [], exchangeCount = 2, lastMergeCount = 0\<rparr>"

section \<open>Iterative synthesizer: \<open>IterativeAnswerer\<close>\<close>

subsection \<open>\<open>generateAnswer\<close>\<close>

text \<open>
  The effects of \<open>generateAnswer\<close> are recorded as a trace: a \<open>Sleep\<close> for each
  \<open>setTimeout\<close> that is awaited, a \<open>Send\<close> for each call of the collaborator. The chunks
  passed in carry their content, as \<open>findRelevantChunks\<close> returns them.
\<close>

record answerer_config =
  tokenRatePerMinute :: "int option"

definition calculateWaitTime :: "int \<Rightarrow> string \<Rightarrow> int" where
  "calculateWaitTime rate inputString =
     (let estimatedTokens = js_div (of_nat (length inputString)) 4;
          waitTimeMs = \<lceil>js_mul (js_mul (js_div estimatedTokens (of_int rate)) 60) 1000\<rceil>
      in max 500 waitTimeMs)"

datatype event = Sleep int | Send prompt

text \<open>
  \<open>[...relevantChunks].sort(compare)\<close>, where \<open>compare\<close> is the difference of the two
  relevance scores, or 0 when one of them is missing. When every chunk has a score (as
  the chunks returned by \<open>findRelevantChunks\<close> have) or none has, \<open>compare\<close> is a total
  preorder and the sorted list is the one every stable sort returns; otherwise the
  language leaves the order to the engine, and the insertion sort fixes one.
\<close>

fun insert_cmp :: "('a \<Rightarrow> 'a \<Rightarrow> int) \<Rightarrow> 'a \<Rightarrow> 'a list \<Rightarrow> 'a list" where
  "insert_cmp cmp x [] = [x]"
| "insert_cmp cmp x (y # ys) = (if cmp x y \<le> 0 then x # y # ys else y # insert_cmp cmp x ys)"

definition js_sort :: "('a \<Rightarrow> 'a \<Rightarrow> int) \<Rightarrow> 'a list \<Rightarrow> 'a list" where
  "js_sort cmp xs = foldr (insert_cmp cmp) xs []"

definition compare_relevance :: "scored_chunk \<Rightarrow> scored_chunk \<Rightarrow> int" where
  "compare_relevance a b =
     (case relevanceScore a of
        None \<Rightarrow> 0
      | Some x \<Rightarrow> (case relevanceScore b of None \<Rightarrow> 0 | Some y \<Rightarrow> x - y))"

definition buildChunkPrompt :: "string \<Rightarrow> scored_chunk \<Rightarrow> string \<Rightarrow> string \<Rightarrow> nat \<Rightarrow> nat \<Rightarrow> prompt" where
  "buildChunkPrompt q chunk currentAnswer conversationHistory chunkIndex totalChunks =
     ChunkPrompt q (content chunk) currentAnswer conversationHistory chunkIndex totalChunks"

fun process_chunks ::
  "int \<Rightarrow> claude \<Rightarrow> string \<Rightarrow> string \<Rightarrow> nat \<Rightarrow> nat \<Rightarrow> scored_chunk list \<Rightarrow> string
     \<Rightarrow> (js_error + string) \<times> event list" where
  "process_chunks rate claude q history n i [] currentAnswer = (Inr currentAnswer, [])"
| "process_chunks rate claude q history n i (chunk # rest) currentAnswer =
     (let p = buildChunkPrompt q chunk currentAnswer history i n;
          waitTime = calculateWaitTime rate (content chunk)
      in case claude p of
           Inl e \<Rightarrow> (Inl e, [Sleep waitTime, Send p])
         | Inr chunkResponse \<Rightarrow>
             (case process_chunks rate claude q history n (Suc i) rest chunkResponse of
                (r, evs) \<Rightarrow> (r, Sleep waitTime # Send p # evs)))"

definition generateAnswer ::
  "answerer_config \<Rightarrow> claude \<Rightarrow> string \<Rightarrow> scored_chunk list \<Rightarrow> string
     \<Rightarrow> (js_error + string) \<times> event list" where
  "generateAnswer cfg claude q relevantChunks conversationHistory =
     (let rate = js_or (tokenRatePerMinute cfg) 50000;
          sortedChunks = js_sort compare_relevance relevantChunks
      in case process_chunks rate claude q conversationHistory (length sortedChunks) 0
                sortedChunks [] of
           (Inl e, evs) \<Rightarrow>
             (Inl (Error (''Failed to generate iterative answer: '' @ message e)), evs)
         | (Inr currentAnswer, evs) \<Rightarrow>
             if length sortedChunks > 1
             then (let finalWaitTime = calculateWaitTime rate currentAnswer;
                       finalPrompt = FinalSummaryPrompt q currentAnswer
                   in case claude finalPrompt of
                        Inl e \<Rightarrow>
                          (Inl (Error (''Failed to generate iterative answer: '' @ message e)),
                           evs @ [Sleep finalWaitTime, Send finalPrompt])
                      | Inr finalAnswer \<Rightarrow>
                          (Inr finalAnswer, evs @ [Sleep finalWaitTime, Send finalPrompt]))
             else (Inr currentAnswer, evs))"

text \<open>
  The text whose length paces a call: the chunk content of a chunk prompt, the compiled
  answer of the final prompt. A trace is \<open>paced\<close> for the rate \<open>R\<close> when it consists of
  pairs of a \<open>Sleep\<close> and a \<open>Send\<close>, each \<open>Sleep\<close> lasting
  \<open>max(500, ceil((L / 4) / R * 60 * 1000))\<close> milliseconds for the length \<open>L\<close> of the text
  sent next, the operations being those of doubles.
\<close>

fun payload :: "prompt \<Rightarrow> string" where
  "payload (ChunkPrompt q c currentAnswer history i n) = c"
| "payload (FinalSummaryPrompt q compiledAnswer) = compiledAnswer"
| "payload p = []"

fun paced :: "int \<Rightarrow> event list \<Rightarrow> bool" where
  "paced R [] = True"
| "paced R (Sleep w # Send p # evs) =
     (w = max 500 \<lceil>js_mul (js_mul (js_div (js_div (of_nat (length (payload p))) 4) (of_int R)) 60) 1000\<rceil>
      \<and> paced R evs)"
| "paced R evs = False"

fun is_final_send :: "event \<Rightarrow> bool" where
  "is_final_send (Send (FinalSummaryPrompt q compiledAnswer)) = True"
| "is_final_send ev = False"

definition long_text :: string where
  "long_text = replicate 1930 CHR ''x''"

definition long_chunk :: scored_chunk where
  "long_chunk =
     \<lparr>chunk_id = ''doc_chunk_1'', content = long_text, filePath = ''doc.txt'',
      startPosition = 0, endPosition = 1929, summary = [], chunk_keywords = [],
      relevanceScore = Some 0\<rparr>"


section \<open>Properties of the double-precision arithmetic\<close>

text \<open>
  The rounding keeps the order: of two numbers the smaller never rounds above the
  larger. With it, an order between exact values carries over to the doubles that the
  program compares.
\<close>

lemma pow2_powi: "pow2 e = 2 powi e"
  by (simp add: pow2_def power_int_def inverse_eq_divide power_divide)

lemma pow2_pos: "0 < pow2 e"
  by (simp add: pow2_powi)

lemma pow2_add: "pow2 (a + b) = pow2 a * pow2 b"
  by (simp add: pow2_powi power_int_add)

lemma pow2_diff: "pow2 (a - b) = pow2 a / pow2 b"
  by (simp add: pow2_powi power_int_diff)

lemma pow2_mono: "a \<le> b \<Longrightarrow> pow2 a \<le> pow2 b"
  by (simp add: pow2_powi power_int_increasing)

lemma pow2_less_imp: "pow2 a < pow2 b \<Longrightarrow> a < b"
  using pow2_mono [of b a] by (cases "a < b") simp_all

lemma pow2_nat: "0 \<le> e \<Longrightarrow> pow2 e = 2 ^ nat e"
  by (simp add: pow2_def)

lemma ilog2_bounds:
  assumes "0 < x"
  shows "pow2 (ilog2 x) \<le> x" and "x < pow2 (ilog2 x + 1)"
proof -
  obtain a b where q: "quotient_of x = (a, b)" by (cases "quotient_of x")
  have b: "0 < b" using quotient_of_denom_pos [OF q] .
  have x: "x = of_int a / of_int b" using quotient_of_div [OF q] .
  have a: "0 < a" using assms b by (simp add: x zero_less_divide_iff)
  define la where "la = bitlen a"
  define lb where "lb = bitlen b"
  from bitlen_bounds [OF a] have "a < 2 ^ nat la" "2 ^ nat (la - 1) \<le> a"
    by (simp_all add: la_def)
  then have a1: "(of_int a :: rat) < 2 ^ nat la" and a2: "(2 :: rat) ^ nat (la - 1) \<le> of_int a"
    by (metis of_int_less_iff of_int_numeral of_int_power, metis of_int_le_iff of_int_numeral of_int_power)
  from bitlen_bounds [OF b] have "b < 2 ^ nat lb" "2 ^ nat (lb - 1) \<le> b"
    by (simp_all add: lb_def)
  then have b1: "(of_int b :: rat) < 2 ^ nat lb" and b2: "(2 :: rat) ^ nat (lb - 1) \<le> of_int b"
    by (metis of_int_less_iff of_int_numeral of_int_power, metis of_int_le_iff of_int_numeral of_int_power)
  have la: "1 \<le> la" using a by (simp add: la_def bitlen_alt_def)
  have lb: "1 \<le> lb" using b by (simp add: lb_def bitlen_alt_def)
  have pa1: "of_int a < pow2 la" and pa2: "pow2 (la - 1) \<le> of_int a"
    using a1 a2 la by (simp_all add: pow2_nat)
  have pb1: "of_int b < pow2 lb" and pb2: "pow2 (lb - 1) \<le> of_int b"
    using b1 b2 lb by (simp_all add: pow2_nat)
  have bpos: "(0 :: rat) < of_int b" using b by simp
  have upper: "x < pow2 (la - lb + 1)"
  proof -
    have "x < pow2 la / of_int b"
      unfolding x using pa1 bpos by (simp add: divide_strict_right_mono)
    also have "\<dots> \<le> pow2 la / pow2 (lb - 1)"
      using pb2 pow2_pos [of la] pow2_pos [of "lb - 1"] by (simp add: frac_le)
    also have "\<dots> = pow2 (la - (lb - 1))" by (simp add: pow2_diff)
    finally show ?thesis by (simp add: algebra_simps)
  qed
  have lower: "pow2 (la - lb - 1) < x"
  proof -
    have "pow2 (la - lb - 1) = pow2 ((la - 1) - lb)" by (simp add: algebra_simps)
    also have "\<dots> = pow2 (la - 1) / pow2 lb" by (simp add: pow2_diff)
    also have "\<dots> < pow2 (la - 1) / of_int b"
      using pb1 bpos pow2_pos [of "la - 1"] by (simp add: divide_strict_left_mono)
    also have "\<dots> \<le> x"
      unfolding x using pa2 bpos by (simp add: divide_right_mono)
    finally show ?thesis .
  qed
  have il: "ilog2 x = (if pow2 (la - lb) \<le> x then la - lb else la - lb - 1)"
    by (simp add: ilog2_def q Let_def la_def lb_def)
  show "pow2 (ilog2 x) \<le> x"
    using lower by (simp add: il)
  show "x < pow2 (ilog2 x + 1)"
    using upper by (simp add: il)
qed

lemma ilog2_mono:
  assumes "0 < x" "x \<le> y"
  shows "ilog2 x \<le> ilog2 y"
proof -
  have "pow2 (ilog2 x) \<le> x" using ilog2_bounds(1) [OF assms(1)] .
  also have "x \<le> y" by fact
  also have "y < pow2 (ilog2 y + 1)" using ilog2_bounds(2) [of y] assms by simp
  finally have "ilog2 x < ilog2 y + 1" by (rule pow2_less_imp)
  then show ?thesis by simp
qed

lemma round_half_even_of_int: "round_half_even (of_int n) = n"
  by (simp add: round_half_even_def)

lemma round_half_even_range:
  "\<lfloor>x\<rfloor> \<le> round_half_even x" "round_half_even x \<le> \<lfloor>x\<rfloor> + 1"
  by (simp_all add: round_half_even_def Let_def)

lemma round_half_even_mono:
  assumes "x \<le> y"
  shows "round_half_even x \<le> round_half_even y"
proof (cases "\<lfloor>x\<rfloor> = \<lfloor>y\<rfloor>")
  case True
  have "x - of_int \<lfloor>y\<rfloor> \<le> y - of_int \<lfloor>y\<rfloor>" using assms by simp
  then show ?thesis
    by (simp add: round_half_even_def Let_def True)
next
  case False
  with assms have "\<lfloor>x\<rfloor> < \<lfloor>y\<rfloor>" using floor_mono [OF assms] by simp
  then have "round_half_even x \<le> \<lfloor>y\<rfloor>"
    using round_half_even_range(2) [of x] by simp
  with round_half_even_range(1) [of y] show ?thesis by simp
qed

lemma fl_pos:
  "0 < x \<Longrightarrow> fl x = of_int (round_half_even (x / pow2 (ilog2 x - 52))) * pow2 (ilog2 x - 52)"
  by (simp add: fl_def Let_def)

lemma fl_pos_bounds:
  assumes "0 < x"
  shows "pow2 (ilog2 x) \<le> fl x" and "fl x \<le> pow2 (ilog2 x + 1)"
proof -
  define s where "s = pow2 (ilog2 x - 52)"
  have s: "0 < s" by (simp add: s_def pow2_pos)
  have p52: "pow2 52 = of_int (2 ^ 52)" and p53: "pow2 53 = of_int (2 ^ 53)"
    by (simp_all add: pow2_def)
  have "ilog2 x = 52 + (ilog2 x - 52)" by simp
  then have "pow2 (ilog2 x) = pow2 (52 + (ilog2 x - 52))" by (rule arg_cong)
  also have "\<dots> = pow2 52 * s" unfolding s_def by (rule pow2_add)
  finally have lo: "pow2 (ilog2 x) = of_int (2 ^ 52) * s" unfolding p52 .
  have "ilog2 x + 1 = 53 + (ilog2 x - 52)" by simp
  then have "pow2 (ilog2 x + 1) = pow2 (53 + (ilog2 x - 52))" by (rule arg_cong)
  also have "\<dots> = pow2 53 * s" unfolding s_def by (rule pow2_add)
  finally have hi: "pow2 (ilog2 x + 1) = of_int (2 ^ 53) * s" unfolding p53 .
  have "of_int (2 ^ 52) \<le> x / s"
    using ilog2_bounds(1) [OF assms] s unfolding lo by (simp add: pos_le_divide_eq)
  from round_half_even_mono [OF this]
  have r1: "2 ^ 52 \<le> round_half_even (x / s)"
    by (simp only: round_half_even_of_int)
  have "x / s \<le> of_int (2 ^ 53)"
    using ilog2_bounds(2) [OF assms] s unfolding hi by (simp add: pos_divide_le_eq)
  from round_half_even_mono [OF this]
  have r2: "round_half_even (x / s) \<le> 2 ^ 53"
    by (simp only: round_half_even_of_int)
  have f: "fl x = of_int (round_half_even (x / s)) * s"
    using assms by (simp add: fl_pos s_def)
  from r1 have "(of_int (2 ^ 52) :: rat) \<le> of_int (round_half_even (x / s))"
    by (simp only: of_int_le_iff)
  then show "pow2 (ilog2 x) \<le> fl x"
    unfolding lo f using s by (simp only: mult_le_cancel_right_pos)
  from r2 have "(of_int (round_half_even (x / s)) :: rat) \<le> of_int (2 ^ 53)"
    by (simp only: of_int_le_iff)
  then show "fl x \<le> pow2 (ilog2 x + 1)"
    unfolding hi f using s by (simp only: mult_le_cancel_right_pos)
qed

lemma fl_mono_pos:
  assumes "0 < x" "x \<le> y"
  shows "fl x \<le> fl y"
proof (cases "ilog2 x = ilog2 y")
  case True
  define s where "s = pow2 (ilog2 y - 52)"
  have s: "0 < s" by (simp add: s_def pow2_pos)
  have "x / s \<le> y / s" using assms s by (simp add: divide_right_mono)
  from round_half_even_mono [OF this]
  have "(of_int (round_half_even (x / s)) :: rat) \<le> of_int (round_half_even (y / s))"
    by (simp only: of_int_le_iff)
  then have "of_int (round_half_even (x / s)) * s \<le> of_int (round_half_even (y / s)) * s"
    using s by (simp only: mult_le_cancel_right_pos)
  moreover have "0 < y" using assms by simp
  ultimately show ?thesis
    using assms(1) by (simp add: fl_pos True s_def)
next
  case False
  have y: "0 < y" using assms by simp
  from False ilog2_mono [OF assms] have "ilog2 x + 1 \<le> ilog2 y" by simp
  from pow2_mono [OF this] fl_pos_bounds(2) [OF assms(1)] fl_pos_bounds(1) [OF y]
  show ?thesis by simp
qed

lemma fl_zero: "fl 0 = 0"
  by (simp add: fl_def)

lemma fl_minus: "fl (- x) = - fl x"
  by (simp add: fl_def Let_def sgn_minus)

lemma fl_pos_pos: "0 < x \<Longrightarrow> 0 < fl x"
  using fl_pos_bounds(1) [of x] pow2_pos [of "ilog2 x"] by simp

lemma fl_mono:
  assumes "x \<le> y"
  shows "fl x \<le> fl y"
proof -
  consider "0 < x" | "x \<le> 0" "0 \<le> y" | "y < 0" using assms by linarith
  then show ?thesis
  proof cases
    case 1
    then show ?thesis using assms by (rule fl_mono_pos)
  next
    case 2
    have "fl x \<le> 0"
    proof (cases "x = 0")
      case True then show ?thesis by (simp add: fl_zero)
    next
      case False
      with 2 have "0 < - x" by simp
      from fl_pos_pos [OF this] show ?thesis by (simp add: fl_minus)
    qed
    moreover have "0 \<le> fl y"
    proof (cases "y = 0")
      case True then show ?thesis by (simp add: fl_zero)
    next
      case False
      with 2 have "0 < y" by simp
      from fl_pos_pos [OF this] show ?thesis by simp
    qed
    ultimately show ?thesis by simp
  next
    case 3
    then have "0 < - y" "- y \<le> - x" using assms by simp_all
    from fl_mono_pos [OF this] show ?thesis by (simp add: fl_minus)
  qed
qed

lemma fl_one: "fl 1 = 1"
  by code_simp

section \<open>Properties of the segmenter\<close>

lemma maxChunkSize_default: "maxChunkSize default_chunking = 160000"
  by (simp add: maxChunkSize_def default_chunking_def tokensToCharsRatio_def)

text \<open>
  Claim C5. A text no longer than \<open>maxChunkSize\<close> is returned as exactly one chunk whose
  content is the whole text, from position 0 to the last character; a text exactly at the
  boundary takes this branch too, so no trailing empty chunk follows it.
\<close>

theorem C5_short_text_single_chunk:
  assumes "int (length doc) \<le> maxChunkSize cfg"
  shows "\<exists>c. splitIntoChunks cfg doc path = Some [c] \<and> content c = doc
           \<and> startPosition c = 0 \<and> endPosition c = int (length doc) - 1"
  using assms by (simp add: splitIntoChunks_def new_Chunk_def)

theorem C5_short_text_single_chunk_witness:
  "int (length ''hello'') \<le> maxChunkSize default_chunking
   \<and> (\<exists>c. splitIntoChunks default_chunking ''hello'' ''doc.txt'' = Some [c]
          \<and> content c = ''hello'' \<and> startPosition c = 0 \<and> endPosition c = 4)"
proof -
  have h: "int (length ''hello'') \<le> maxChunkSize default_chunking"
    by (simp add: maxChunkSize_default)
  from C5_short_text_single_chunk [OF h, of "''doc.txt''"] h show ?thesis
    by simp
qed

lemma length_substring:
  assumes "0 \<le> a" "a \<le> b" "b \<le> int (length s)"
  shows "int (length (substring s a b)) = b - a"
proof -
  have "substring s a b = take (nat (b - a)) (drop (nat a) s)"
    using assms by (simp add: substring_def Let_def min_absorb1 max_absorb1 max_absorb2)
  moreover have "nat (b - a) \<le> length s - nat a"
    using assms by linarith
  ultimately show ?thesis
    using assms by (simp add: min_absorb2)
qed

lemma stride_chunk_ok:
  assumes "0 < M" "0 \<le> pad" "0 \<le> pos" "pos < int (length doc)"
  shows "stride_ok M pad doc (stride_chunk M pad doc path pos idx)"
proof -
  define n where "n = int (length doc)"
  define ps where "ps = max 0 (pos - pad)"
  define pe where "pe = min (min (pos + M) n + pad) n"
  have sel: "startPosition (stride_chunk M pad doc path pos idx) = ps"
    "endPosition (stride_chunk M pad doc path pos idx) = pe - 1"
    "content (stride_chunk M pad doc path pos idx) = substring doc ps pe"
    by (simp_all add: stride_chunk_def new_Chunk_def Let_def n_def ps_def pe_def)
  have b: "0 \<le> ps" "ps \<le> pos" "pos < pe" "pe \<le> n" "pe - ps \<le> M + 2 * pad"
    using assms unfolding n_def ps_def pe_def by auto
  have len: "int (length (substring doc ps pe)) = pe - ps"
    using b by (intro length_substring) (auto simp: n_def)
  show ?thesis
    unfolding stride_ok_def sel using b len by (simp add: n_def)
qed

lemma stride_chunk_covers:
  assumes "0 < M" "0 \<le> pad" "0 \<le> pos" "pos \<le> x" "x < pos + M" "x < int (length doc)"
  shows "startPosition (stride_chunk M pad doc path pos idx) \<le> x
       \<and> x \<le> endPosition (stride_chunk M pad doc path pos idx)"
  using assms by (auto simp: stride_chunk_def new_Chunk_def Let_def)

lemma split_loop_returns:
  assumes "0 < M" "0 \<le> pad" "0 \<le> pos"
  shows "\<exists>new. split_loop M pad doc path pos idx chunks = Some (chunks @ new)
      \<and> (\<forall>c\<in>set new. stride_ok M pad doc c)
      \<and> (\<forall>x. pos \<le> x \<and> x < int (length doc)
             \<longrightarrow> (\<exists>c\<in>set new. startPosition c \<le> x \<and> x \<le> endPosition c))"
  using assms(3)
proof (induction "nat (int (length doc) - pos)" arbitrary: pos idx chunks rule: less_induct)
  case less
  show ?case
  proof (cases "pos < int (length doc)")
    case False
    then show ?thesis
      by (subst split_loop.simps) simp
  next
    case True
    let ?c = "stride_chunk M pad doc path pos idx"
    have "nat (int (length doc) - (pos + M)) < nat (int (length doc) - pos)"
      using True assms(1) by simp
    moreover have "0 \<le> pos + M" using less.prems assms(1) by simp
    ultimately obtain new where
      run: "split_loop M pad doc path (pos + M) (Suc idx) (chunks @ [?c]) = Some ((chunks @ [?c]) @ new)"
      and ok: "\<forall>c\<in>set new. stride_ok M pad doc c"
      and cov: "\<forall>x. pos + M \<le> x \<and> x < int (length doc)
             \<longrightarrow> (\<exists>c\<in>set new. startPosition c \<le> x \<and> x \<le> endPosition c)"
      using less.hyps [of "pos + M" "Suc idx" "chunks @ [?c]"] by blast
    have c_ok: "stride_ok M pad doc ?c"
      using stride_chunk_ok [OF assms(1,2) less.prems True] .
    have "split_loop M pad doc path pos idx chunks = Some (chunks @ (?c # new))"
      using True run by (subst split_loop.simps) simp
    moreover have "\<forall>c\<in>set (?c # new). stride_ok M pad doc c"
      using ok c_ok by simp
    moreover have "\<forall>x. pos \<le> x \<and> x < int (length doc)
             \<longrightarrow> (\<exists>c\<in>set (?c # new). startPosition c \<le> x \<and> x \<le> endPosition c)"
    proof (intro allI impI)
      fix x assume x: "pos \<le> x \<and> x < int (length doc)"
      show "\<exists>c\<in>set (?c # new). startPosition c \<le> x \<and> x \<le> endPosition c"
      proof (cases "x < pos + M")
        case True
        with stride_chunk_covers [OF assms(1,2) less.prems, of x doc path idx] x
        show ?thesis by simp
      next
        case False
        with cov x obtain c where "c \<in> set new" "startPosition c \<le> x \<and> x \<le> endPosition c"
          by (meson not_less)
        then show ?thesis by auto
      qed
    qed
    ultimately show ?thesis by blast
  qed
qed

lemma chunkPadding_nonneg: "0 < maxChunkSize cfg \<Longrightarrow> 0 \<le> overlapPercentage cfg \<Longrightarrow> 0 \<le> chunkPadding cfg"
  by (simp add: chunkPadding_def pos_imp_zdiv_nonneg_iff)

lemma padded_length_bound:
  assumes "0 < maxChunkSize cfg" "0 \<le> overlapPercentage cfg"
    and "n \<le> maxChunkSize cfg + 2 * chunkPadding cfg"
  shows "real_of_int n \<le> real_of_int (maxChunkSize cfg) * (1 + real_of_int (overlapPercentage cfg) / 100)"
proof -
  have "200 * ((maxChunkSize cfg * overlapPercentage cfg) div 200) \<le> maxChunkSize cfg * overlapPercentage cfg"
    by (simp add: minus_mod_eq_mult_div [symmetric])
  then have "100 * n \<le> maxChunkSize cfg * (100 + overlapPercentage cfg)"
    using assms(3) by (simp add: chunkPadding_def algebra_simps)
  then have "real_of_int (100 * n) \<le> real_of_int (maxChunkSize cfg * (100 + overlapPercentage cfg))"
    by (simp only: of_int_le_iff)
  then show ?thesis
    by (simp add: algebra_simps)
qed

text \<open>
  With a non-positive \<open>maxChunkSize\<close> the position never advances: on a non-empty text
  the loop never ends, and the call does not return.
\<close>

lemma split_loop_Some_progress:
  assumes "split_loop M pad doc path pos idx chunks = Some result"
  shows "\<not> (M \<le> 0 \<and> pos < int (length doc))"
proof (rule split_loop.raw_induct
    [where P = "\<lambda>M pad doc path pos idx chunks result. \<not> (M \<le> 0 \<and> pos < int (length doc))",
     OF _ assms])
  fix f M pad doc path pos idx chunks result
  assume IH: "\<And>M pad doc path pos idx chunks result.
      f M pad doc path pos idx chunks = Some result \<Longrightarrow> \<not> (M \<le> 0 \<and> pos < int (length doc))"
    and step: "(if pos < int (length doc)
       then f M pad doc path (pos + M) (Suc idx) (chunks @ [stride_chunk M pad doc path pos idx])
       else Some chunks) = Some result"
  show "\<not> (M \<le> 0 \<and> pos < int (length doc))"
  proof
    assume a: "M \<le> 0 \<and> pos < int (length doc)"
    with step have "f M pad doc path (pos + M) (Suc idx)
        (chunks @ [stride_chunk M pad doc path pos idx]) = Some result"
      by simp
    from IH [OF this] a show False by simp
  qed
qed

lemma splitIntoChunks_never_returns:
  assumes "maxChunkSize cfg \<le> 0" "doc \<noteq> []"
  shows "splitIntoChunks cfg doc path = None"
proof -
  have "int (length doc) > maxChunkSize cfg" using assms by (cases doc) simp_all
  moreover have "split_loop (maxChunkSize cfg) (chunkPadding cfg) doc path 0 1 [] = None"
  proof (cases "split_loop (maxChunkSize cfg) (chunkPadding cfg) doc path 0 1 []")
    case (Some result)
    from split_loop_Some_progress [OF this] assms show ?thesis by (cases doc) simp_all
  qed simp
  ultimately show ?thesis by (simp add: splitIntoChunks_def)
qed

lemma maxChunkSize_small: "maxChunkSize small_chunking = 4"
  by (simp add: maxChunkSize_def small_chunking_def tokensToCharsRatio_def)

lemma chunkPadding_small: "chunkPadding small_chunking = 1"
  by (simp add: chunkPadding_def maxChunkSize_small) (simp add: small_chunking_def)

lemma splitIntoChunks_example:
  "splitIntoChunks small_chunking ''abcdefghij'' ''a/doc.txt'' =
     Some [new_Chunk ''doc.txt_chunk_1'' ''abcde'' ''a/doc.txt'' 0 4,
           new_Chunk ''doc.txt_chunk_2'' ''defghi'' ''a/doc.txt'' 3 8,
           new_Chunk ''doc.txt_chunk_3'' ''hij'' ''a/doc.txt'' 7 9]"
  by code_simp

text \<open>
  Claim C4, as stated, fails on the empty text: the single chunk returned for it has
  \<open>startPosition = 0\<close> and \<open>endPosition = content.length - 1 = -1\<close>.
\<close>

theorem C4_empty_text_counterexample:
  "splitIntoChunks default_chunking [] ''doc.txt''
     = Some [new_Chunk ''doc.txt_chunk_1'' [] ''doc.txt'' 0 (- 1)]
   \<and> \<not> (endPosition (new_Chunk ''doc.txt_chunk_1'' [] ''doc.txt'' 0 (- 1))
          \<ge> startPosition (new_Chunk ''doc.txt_chunk_1'' [] ''doc.txt'' 0 (- 1)))"
  by (simp add: splitIntoChunks_def maxChunkSize_default new_Chunk_def basename_def
      strip_trailing_slashes_def)

text \<open>
  Claim C4, amended. End positions are inclusive. For a non-empty text, a positive
  \<open>maxChunkSize\<close> and a non-negative overlap percentage, the segmenter returns, and every
  chunk it returns has \<open>endPosition \<ge> startPosition\<close>. For the empty text (and a
  non-negative \<open>maxChunkSize\<close>) it returns the single empty chunk with \<open>startPosition = 0\<close>
  and \<open>endPosition = -1\<close>, one less than its start.
\<close>

theorem C4_positions_ordered:
  "(doc \<noteq> [] \<and> 0 < maxChunkSize cfg \<and> 0 \<le> overlapPercentage cfg \<longrightarrow>
      (\<exists>chunks. splitIntoChunks cfg doc path = Some chunks \<and> chunks \<noteq> []
         \<and> (\<forall>c\<in>set chunks. startPosition c \<le> endPosition c)))
   \<and> (0 \<le> maxChunkSize cfg \<longrightarrow>
      (\<exists>c. splitIntoChunks cfg [] path = Some [c] \<and> content c = []
         \<and> startPosition c = 0 \<and> endPosition c = - 1))"
proof (intro conjI impI)
  assume a: "doc \<noteq> [] \<and> 0 < maxChunkSize cfg \<and> 0 \<le> overlapPercentage cfg"
  show "\<exists>chunks. splitIntoChunks cfg doc path = Some chunks \<and> chunks \<noteq> []
         \<and> (\<forall>c\<in>set chunks. startPosition c \<le> endPosition c)"
  proof (cases "int (length doc) \<le> maxChunkSize cfg")
    case True
    with a show ?thesis
      by (simp add: splitIntoChunks_def new_Chunk_def Suc_leI)
  next
    case False
    from a have M: "0 < maxChunkSize cfg" and pad: "0 \<le> chunkPadding cfg"
      by (simp_all add: chunkPadding_nonneg)
    from split_loop_returns [OF M pad, of 0 doc path 1 "[]"]
    obtain new where run: "split_loop (maxChunkSize cfg) (chunkPadding cfg) doc path 0 1 [] = Some new"
      and ok: "\<forall>c\<in>set new. stride_ok (maxChunkSize cfg) (chunkPadding cfg) doc c"
      and cov: "\<forall>x. 0 \<le> x \<and> x < int (length doc)
             \<longrightarrow> (\<exists>c\<in>set new. startPosition c \<le> x \<and> x \<le> endPosition c)"
      by auto
    from a cov have "\<exists>c\<in>set new. startPosition c \<le> 0 \<and> 0 \<le> endPosition c"
      by simp
    then have "new \<noteq> []" by auto
    moreover have "splitIntoChunks cfg doc path = Some new"
      using False run by (simp add: splitIntoChunks_def)
    moreover have "\<forall>c\<in>set new. startPosition c \<le> endPosition c"
      using ok unfolding stride_ok_def by blast
    ultimately show ?thesis by blast
  qed
next
  assume "0 \<le> maxChunkSize cfg"
  then show "\<exists>c. splitIntoChunks cfg [] path = Some [c] \<and> content c = []
         \<and> startPosition c = 0 \<and> endPosition c = - 1"
    by (simp add: splitIntoChunks_def new_Chunk_def)
qed

theorem C4_positions_ordered_witness:
  "''abcdefghij'' \<noteq> [] \<and> 0 < maxChunkSize small_chunking
   \<and> 0 \<le> overlapPercentage small_chunking
   \<and> (\<exists>chunks. splitIntoChunks small_chunking ''abcdefghij'' ''a/doc.txt'' = Some chunks
         \<and> chunks \<noteq> [] \<and> (\<forall>c\<in>set chunks. startPosition c \<le> endPosition c))
   \<and> (\<exists>c. splitIntoChunks small_chunking [] ''a/doc.txt'' = Some [c] \<and> content c = []
         \<and> startPosition c = 0 \<and> endPosition c = - 1)"
proof -
  have h: "''abcdefghij'' \<noteq> [] \<and> 0 < maxChunkSize small_chunking
      \<and> 0 \<le> overlapPercentage small_chunking"
    by (simp add: maxChunkSize_small) (simp add: small_chunking_def)
  have h0: "0 \<le> maxChunkSize small_chunking"
    by (simp add: maxChunkSize_small)
  from C4_positions_ordered [of "''abcdefghij''" small_chunking "''a/doc.txt''"] h h0
  show ?thesis by blast
qed

lemma substring_in_range:
  assumes "0 \<le> a" "a \<le> b" "b \<le> int (length s)"
  shows "substring s a b = take (nat (b - a)) (drop (nat a) s)"
  using assms by (simp add: substring_def Let_def min_absorb1 max_absorb1 max_absorb2)

text \<open>
  The strides of the loop in closed form: stride \<open>k\<close> starts at \<open>pos + k * M\<close>, and the
  loop makes as many strides as it takes to pass the end of the text.
\<close>

lemma split_loop_strides:
  assumes "0 < M" "0 \<le> pos"
  shows "\<exists>new. split_loop M pad doc path pos idx chunks = Some (chunks @ new)
      \<and> (\<forall>k<length new. new ! k = stride_chunk M pad doc path (pos + int k * M) (idx + k))
      \<and> int (length doc) \<le> pos + int (length new) * M
      \<and> (new \<noteq> [] \<longrightarrow> pos + (int (length new) - 1) * M < int (length doc))"
  using assms(2)
proof (induction "nat (int (length doc) - pos)" arbitrary: pos idx chunks rule: less_induct)
  case less
  show ?case
  proof (cases "pos < int (length doc)")
    case False
    then have "split_loop M pad doc path pos idx chunks = Some (chunks @ [])"
      by (subst split_loop.simps) simp
    with False show ?thesis by force
  next
    case True
    let ?c = "stride_chunk M pad doc path pos idx"
    have "nat (int (length doc) - (pos + M)) < nat (int (length doc) - pos)"
      using True assms(1) by simp
    moreover have "0 \<le> pos + M" using less.prems assms(1) by simp
    ultimately obtain new where
      run: "split_loop M pad doc path (pos + M) (Suc idx) (chunks @ [?c]) = Some ((chunks @ [?c]) @ new)"
      and nth: "\<forall>k<length new. new ! k = stride_chunk M pad doc path (pos + M + int k * M) (Suc idx + k)"
      and enough: "int (length doc) \<le> pos + M + int (length new) * M"
      and last: "new \<noteq> [] \<longrightarrow> pos + M + (int (length new) - 1) * M < int (length doc)"
      using less.hyps [of "pos + M" "Suc idx" "chunks @ [?c]"] by blast
    have r: "split_loop M pad doc path pos idx chunks = Some (chunks @ (?c # new))"
      using True run by (subst split_loop.simps) simp
    have n: "\<forall>k<length (?c # new).
        (?c # new) ! k = stride_chunk M pad doc path (pos + int k * M) (idx + k)"
    proof (intro allI impI)
      fix k assume k: "k < length (?c # new)"
      show "(?c # new) ! k = stride_chunk M pad doc path (pos + int k * M) (idx + k)"
      proof (cases k)
        case 0
        then show ?thesis by simp
      next
        case (Suc j)
        with k have "j < length new" by simp
        with nth have "new ! j = stride_chunk M pad doc path (pos + M + int j * M) (Suc idx + j)"
          by blast
        moreover have "pos + M + int j * M = pos + int (Suc j) * M"
          by (simp add: algebra_simps)
        ultimately show ?thesis using Suc by simp
      qed
    qed
    have e: "int (length doc) \<le> pos + int (length (?c # new)) * M"
      using enough by (simp add: algebra_simps)
    have l: "pos + (int (length (?c # new)) - 1) * M < int (length doc)"
    proof (cases "new = []")
      case True
      with \<open>pos < int (length doc)\<close> show ?thesis by simp
    next
      case False
      with last have "pos + M + (int (length new) - 1) * M < int (length doc)" by blast
      then show ?thesis by (simp add: algebra_simps)
    qed
    from r n e l show ?thesis by blast
  qed
qed

lemma stride_chunk_positions:
  "startPosition (stride_chunk M pad doc path pos idx) = max 0 (pos - pad)"
  "endPosition (stride_chunk M pad doc path pos idx)
     = min (min (pos + M) (int (length doc)) + pad) (int (length doc)) - 1"
  by (simp_all add: stride_chunk_def new_Chunk_def Let_def)

text \<open>
  Claim C6. The claim is about a configuration with a positive \<open>maxChunkSize\<close> (for a
  non-positive one the call does not return, \<open>splitIntoChunks_never_returns\<close>) and a
  non-negative overlap percentage. For a text longer than \<open>maxChunkSize\<close> the segmenter
  then returns; it makes one chunk for each stride of \<open>maxChunkSize\<close> characters, chunk
  \<open>k\<close> (counted from 0) reaching from \<open>k * maxChunkSize - chunkPadding\<close> to
  \<open>(k + 1) * maxChunkSize + chunkPadding - 1\<close>, both cut to the text; the content of
  every chunk is the text between its \<open>startPosition\<close> and its \<open>endPosition\<close>, both
  included, so its length is the length of that range; that length is at most
  \<open>maxChunkSize * (1 + overlapPercentage / 100)\<close>; and every position of the text lies in
  the range \<open>[startPosition, endPosition]\<close> of some chunk.
\<close>

theorem C6_long_text_bounded_and_covered:
  assumes "maxChunkSize cfg < int (length doc)" "0 < maxChunkSize cfg" "0 \<le> overlapPercentage cfg"
  shows "\<exists>chunks. splitIntoChunks cfg doc path = Some chunks
     \<and> (int (length chunks) - 1) * maxChunkSize cfg < int (length doc)
     \<and> int (length doc) \<le> int (length chunks) * maxChunkSize cfg
     \<and> (\<forall>k<length chunks.
           startPosition (chunks ! k) = max 0 (int k * maxChunkSize cfg - chunkPadding cfg)
         \<and> endPosition (chunks ! k)
             = min (min (int k * maxChunkSize cfg + maxChunkSize cfg) (int (length doc))
                      + chunkPadding cfg) (int (length doc)) - 1)
     \<and> (\<forall>c\<in>set chunks.
           0 \<le> startPosition c \<and> startPosition c \<le> endPosition c
         \<and> endPosition c < int (length doc)
         \<and> content c = take (nat (endPosition c + 1 - startPosition c))
                         (drop (nat (startPosition c)) doc)
         \<and> int (length (content c)) = endPosition c + 1 - startPosition c
         \<and> real (length (content c))
               \<le> real_of_int (maxChunkSize cfg) * (1 + real_of_int (overlapPercentage cfg) / 100))
     \<and> (\<forall>x. 0 \<le> x \<and> x < int (length doc)
            \<longrightarrow> (\<exists>c\<in>set chunks. startPosition c \<le> x \<and> x \<le> endPosition c))"
proof -
  from split_loop_returns [OF assms(2) chunkPadding_nonneg [OF assms(2,3)], of 0 doc path 1 "[]"]
  obtain new where run: "split_loop (maxChunkSize cfg) (chunkPadding cfg) doc path 0 1 [] = Some new"
    and ok: "\<forall>c\<in>set new. stride_ok (maxChunkSize cfg) (chunkPadding cfg) doc c"
    and cov: "\<forall>x. 0 \<le> x \<and> x < int (length doc)
             \<longrightarrow> (\<exists>c\<in>set new. startPosition c \<le> x \<and> x \<le> endPosition c)"
    by auto
  from split_loop_strides [OF assms(2), of 0 "chunkPadding cfg" doc path 1 "[]"] run
  have nth: "\<forall>k<length new.
        new ! k = stride_chunk (maxChunkSize cfg) (chunkPadding cfg) doc path
                    (int k * maxChunkSize cfg) (1 + k)"
    and enough: "int (length doc) \<le> int (length new) * maxChunkSize cfg"
    and last: "new \<noteq> [] \<longrightarrow> (int (length new) - 1) * maxChunkSize cfg < int (length doc)"
    by auto
  have "new \<noteq> []" using enough assms(1,2) by auto
  with last have count: "(int (length new) - 1) * maxChunkSize cfg < int (length doc)" by blast
  have split: "splitIntoChunks cfg doc path = Some new"
    using assms(1) run by (simp add: splitIntoChunks_def)
  have pos: "\<forall>k<length new.
           startPosition (new ! k) = max 0 (int k * maxChunkSize cfg - chunkPadding cfg)
         \<and> endPosition (new ! k)
             = min (min (int k * maxChunkSize cfg + maxChunkSize cfg) (int (length doc))
                      + chunkPadding cfg) (int (length doc)) - 1"
    using nth by (simp add: stride_chunk_positions)
  have each: "\<forall>c\<in>set new.
           0 \<le> startPosition c \<and> startPosition c \<le> endPosition c
         \<and> endPosition c < int (length doc)
         \<and> content c = take (nat (endPosition c + 1 - startPosition c))
                         (drop (nat (startPosition c)) doc)
         \<and> int (length (content c)) = endPosition c + 1 - startPosition c
         \<and> real (length (content c))
               \<le> real_of_int (maxChunkSize cfg) * (1 + real_of_int (overlapPercentage cfg) / 100)"
  proof
    fix c assume "c \<in> set new"
    with ok have c: "stride_ok (maxChunkSize cfg) (chunkPadding cfg) doc c" by blast
    then have "int (length (content c)) \<le> maxChunkSize cfg + 2 * chunkPadding cfg"
      unfolding stride_ok_def by blast
    from padded_length_bound [OF assms(2,3) this] have "real (length (content c))
            \<le> real_of_int (maxChunkSize cfg) * (1 + real_of_int (overlapPercentage cfg) / 100)"
      by simp
    moreover from c have b: "0 \<le> startPosition c" "startPosition c \<le> endPosition c"
      "endPosition c < int (length doc)"
      "int (length (content c)) = endPosition c + 1 - startPosition c"
      "content c = substring doc (startPosition c) (endPosition c + 1)"
      unfolding stride_ok_def by blast+
    moreover from b have "content c = take (nat (endPosition c + 1 - startPosition c))
                         (drop (nat (startPosition c)) doc)"
      using substring_in_range [of "startPosition c" "endPosition c + 1" doc] by simp
    ultimately show "0 \<le> startPosition c \<and> startPosition c \<le> endPosition c
         \<and> endPosition c < int (length doc)
         \<and> content c = take (nat (endPosition c + 1 - startPosition c))
                         (drop (nat (startPosition c)) doc)
         \<and> int (length (content c)) = endPosition c + 1 - startPosition c
         \<and> real (length (content c))
               \<le> real_of_int (maxChunkSize cfg) * (1 + real_of_int (overlapPercentage cfg) / 100)"
      by blast
  qed
  from split count enough pos each cov show ?thesis by blast
qed

theorem C6_long_text_bounded_and_covered_witness:
  "maxChunkSize small_chunking < int (length ''abcdefghij'')
   \<and> 0 < maxChunkSize small_chunking \<and> 0 \<le> overlapPercentage small_chunking
   \<and> splitIntoChunks small_chunking ''abcdefghij'' ''a/doc.txt'' =
        Some [new_Chunk ''doc.txt_chunk_1'' ''abcde'' ''a/doc.txt'' 0 4,
              new_Chunk ''doc.txt_chunk_2'' ''defghi'' ''a/doc.txt'' 3 8,
              new_Chunk ''doc.txt_chunk_3'' ''hij'' ''a/doc.txt'' 7 9]
   \<and> (\<exists>chunks. splitIntoChunks small_chunking ''abcdefghij'' ''a/doc.txt'' = Some chunks
     \<and> (int (length chunks) - 1) * maxChunkSize small_chunking < int (length ''abcdefghij'')
     \<and> int (length ''abcdefghij'') \<le> int (length chunks) * maxChunkSize small_chunking
     \<and> (\<forall>k<length chunks.
           startPosition (chunks ! k)
             = max 0 (int k * maxChunkSize small_chunking - chunkPadding small_chunking)
         \<and> endPosition (chunks ! k)
             = min (min (int k * maxChunkSize small_chunking + maxChunkSize small_chunking)
                      (int (length ''abcdefghij''))
                      + chunkPadding small_chunking) (int (length ''abcdefghij'')) - 1)
     \<and> (\<forall>c\<in>set chunks.
           0 \<le> startPosition c \<and> startPosition c \<le> endPosition c
         \<and> endPosition c < int (length ''abcdefghij'')
         \<and> content c = take (nat (endPosition c + 1 - startPosition c))
                         (drop (nat (startPosition c)) ''abcdefghij'')
         \<and> int (length (content c)) = endPosition c + 1 - startPosition c
         \<and> real (length (content c))
               \<le> real_of_int (maxChunkSize small_chunking)
                   * (1 + real_of_int (overlapPercentage small_chunking) / 100))
     \<and> (\<forall>x. 0 \<le> x \<and> x < int (length ''abcdefghij'')
            \<longrightarrow> (\<exists>c\<in>set chunks. startPosition c \<le> x \<and> x \<le> endPosition c)))"
proof -
  have h1: "maxChunkSize small_chunking < int (length ''abcdefghij'')"
    and h2: "0 < maxChunkSize small_chunking"
    by (simp_all add: maxChunkSize_small)
  have h3: "0 \<le> overlapPercentage small_chunking"
    by (simp add: small_chunking_def)
  note ex = splitIntoChunks_example
  from C6_long_text_bounded_and_covered [OF h1 h2 h3, of "''a/doc.txt''"] h1 h2 h3 ex
  show ?thesis by blast
qed

section \<open>Properties of the conversation store\<close>

lemma length_slice_from:
  assumes "0 < M" "M < int (length xs)"
  shows "int (length (slice_from xs (int (length xs) - M))) = M"
  using assms by (simp add: slice_from_def slice_def Let_def)

lemma merge_length:
  assumes "0 < M" "M < int (length (recentExchanges c))"
  shows "int (length (recentExchanges (mergeExchangesToSummary cfg claude c M))) = M"
  using length_slice_from [OF assms]
  by (simp add: mergeExchangesToSummary_def Let_def split: sum.splits)

lemma merge_exchangeCount:
  "exchangeCount (mergeExchangesToSummary cfg claude c M) = exchangeCount c"
  by (simp add: mergeExchangesToSummary_def Let_def split: sum.splits)

lemma merge_lastMergeCount:
  "lastMergeCount (mergeExchangesToSummary cfg claude c M) = lastMergeCount c
   \<or> lastMergeCount (mergeExchangesToSummary cfg claude c M) = exchangeCount c"
  by (simp add: mergeExchangesToSummary_def Let_def split: sum.splits)

lemma addExchange_Inr:
  assumes "addExchange cfg claude now fs cid q a = (Inr c', fs')"
  shows "\<exists>c. files fs cid = Some c \<and> c' = compacted cfg claude (pushed c now q a)
           \<and> fs' = fs\<lparr>files := (files fs)(cid \<mapsto> c')\<rparr>"
  using assms
  by (auto simp: addExchange_def getConversation_def saveConversation_def Let_def
      compacted_def pushed_def split: option.splits if_splits)

lemma addExchange_files:
  assumes "addExchange cfg claude now fs cid q a = (r, fs')"
  shows "fs' = fs \<or> (\<exists>c. files fs cid = Some c
            \<and> fs' = fs\<lparr>files := (files fs)(cid \<mapsto> compacted cfg claude (pushed c now q a))\<rparr>)"
  using assms
  by (auto simp: addExchange_def getConversation_def saveConversation_def Let_def
      compacted_def pushed_def split: option.splits if_splits)

lemma compacted_inv:
  assumes M: "0 < js_or (maxRecentExchanges cfg) 5" and inv: "conv_inv cfg c"
  shows "conv_inv cfg (compacted cfg claude (pushed c now q a))"
proof -
  define M where "M = js_or (maxRecentExchanges cfg) 5"
  define F where "F = js_or (mergeFrequency cfg) 3"
  define c1 where "c1 = pushed c now q a"
  have n1: "int (length (recentExchanges c1)) = int (length (recentExchanges c)) + 1"
    and e1: "exchangeCount c1 = exchangeCount c + 1" and l1: "lastMergeCount c1 = lastMergeCount c"
    by (simp_all add: c1_def pushed_def)
  from inv have d: "0 \<le> exchangeCount c - lastMergeCount c"
    and alt: "int (length (recentExchanges c)) \<le> M
       \<or> (int (length (recentExchanges c)) - M \<le> exchangeCount c - lastMergeCount c
           \<and> exchangeCount c - lastMergeCount c < F)"
    by (simp_all add: conv_inv_def Let_def M_def F_def)
  show ?thesis
  proof (cases "int (length (recentExchanges c1)) > M \<and> exchangeCount c1 - lastMergeCount c1 \<ge> F")
    case True
    then have eq: "compacted cfg claude c1 = mergeExchangesToSummary cfg claude c1 M"
      by (simp add: compacted_def M_def F_def)
    have len: "int (length (recentExchanges (mergeExchangesToSummary cfg claude c1 M))) = M"
      using True M by (intro merge_length) (simp_all add: M_def)
    have "0 \<le> exchangeCount c1 - lastMergeCount (mergeExchangesToSummary cfg claude c1 M)"
      using merge_lastMergeCount [of cfg claude c1 M] d e1 l1 by auto
    then show ?thesis
      using len eq unfolding c1_def [symmetric]
      by (simp add: conv_inv_def Let_def merge_exchangeCount M_def [symmetric])
  next
    case False
    then have eq: "compacted cfg claude c1 = c1"
      by (auto simp: compacted_def M_def F_def)
    show ?thesis
      unfolding c1_def [symmetric] eq
      using False d alt n1 e1 l1
      by (auto simp: conv_inv_def Let_def M_def [symmetric] F_def [symmetric])
  qed
qed

lemma createConversation_files:
  assumes "createConversation fs uuid now indexId = (r, fs')"
  shows "fs' = fs \<or> (\<exists>c0. recentExchanges c0 = [] \<and> exchangeCount c0 = 0 \<and> lastMergeCount c0 = 0
            \<and> fs' = fs\<lparr>files := (files fs)(uuid \<mapsto> c0)\<rparr>)"
proof (cases "writable fs")
  case True
  let ?c0 = "\<lparr>conv_id = uuid, conv_indexId = indexId, createdAt = now, updatedAt = now,
             recentExchanges = [], historySummary = [], exchangeCount = 0,
             lastMergeCount = 0\<rparr>"
  from True assms have "fs' = fs\<lparr>files := (files fs)(uuid \<mapsto> ?c0)\<rparr>"
    by (simp add: createConversation_def saveConversation_def Let_def)
  then show ?thesis
    by (intro disjI2 exI [of _ ?c0]) simp
next
  case False
  with assms have "fs' = fs"
    by (simp add: createConversation_def saveConversation_def Let_def)
  then show ?thesis by simp
qed

lemma fresh_inv:
  assumes "0 < js_or (maxRecentExchanges cfg) 5"
    and "recentExchanges c0 = []" "exchangeCount c0 = 0" "lastMergeCount c0 = 0"
  shows "conv_inv cfg c0"
  using assms by (simp add: conv_inv_def Let_def)

lemma reachable_inv:
  assumes "reachable cfg fs" and M: "0 < js_or (maxRecentExchanges cfg) 5"
  shows "\<forall>cid c. files fs cid = Some c \<longrightarrow> conv_inv cfg c"
  using assms(1)
proof (induction rule: reachable.induct)
  case (reach_empty w)
  then show ?case by simp
next
  case (reach_chmod fs w)
  then show ?case by simp
next
  case (reach_create fs uuid now indexId r fs')
  from createConversation_files [OF reach_create.hyps(2)] reach_create.IH fresh_inv [OF M]
  show ?case by (auto split: if_splits)
next
  case (reach_add fs claude now conversationId q a r fs')
  from addExchange_files [OF reach_add.hyps(2)] reach_add.IH compacted_inv [OF M]
  show ?case by (auto split: if_splits)
next
  case (reach_delete fs conversationId r fs')
  then show ?case
    by (auto simp: deleteConversation_def split: option.splits if_splits)
qed

lemma reachable_addExchanges:
  "reachable cfg fs \<Longrightarrow> reachable cfg (snd (addExchanges cfg claude fs cid calls))"
proof (induction calls arbitrary: fs)
  case Nil
  then show ?case by simp
next
  case (Cons call calls)
  obtain now q a where call: "call = (now, q, a)" by (cases call)
  obtain r fs' where step: "addExchange cfg claude now fs cid q a = (r, fs')"
    by (cases "addExchange cfg claude now fs cid q a")
  from Cons.prems step have "reachable cfg fs'" by (rule reach_add)
  from Cons.IH [OF this] show ?case
    by (cases "addExchanges cfg claude fs' cid calls") (simp add: call step)
qed

lemma default_conversation_bounds:
  "js_or (maxRecentExchanges default_conversation_config) 5 = 5"
  "js_or (mergeFrequency default_conversation_config) 3 = 3"
  by (simp_all add: js_or_def default_conversation_config_def)

text \<open>
  Claim C1, as stated, fails. With the shipped configuration (five recent exchanges, a
  merge every three exchanges) and a collaborator that always answers, the sixth call
  compacts the list to five entries and sets the merge count to six; the seventh call
  finds \<open>7 - 6 < 3\<close>, skips the compaction and returns six recent exchanges.
\<close>

theorem C1_seventh_exchange_counterexample:
  "map recent_length
     (fst (addExchanges default_conversation_config echo_claude
        (snd (createConversation \<lparr>files = Map.empty, writable = True\<rparr> ''c1'' ''t0'' ''idx''))
        ''c1'' (replicate 7 (''t'', ''q'', ''a''))))
     = [1, 2, 3, 4, 5, 5, 6]
   \<and> \<not> (6 \<le> js_or (maxRecentExchanges default_conversation_config) 5)"
proof
  show "map recent_length
     (fst (addExchanges default_conversation_config echo_claude
        (snd (createConversation \<lparr>files = Map.empty, writable = True\<rparr> ''c1'' ''t0'' ''idx''))
        ''c1'' (replicate 7 (''t'', ''q'', ''a''))))
     = [1, 2, 3, 4, 5, 5, 6]"
    by code_simp
  show "\<not> (6 \<le> js_or (maxRecentExchanges default_conversation_config) 5)"
    by (simp add: default_conversation_bounds)
qed

text \<open>
  Claim C1, amended. The compaction runs only every \<open>mergeFrequency\<close> exchanges, so the
  bound on the recent list is \<open>maxRecentExchanges + mergeFrequency - 1\<close>: it holds after
  every \<open>addExchange\<close> call that returns, in every state of the store reachable from the
  empty one. The bound \<open>maxRecentExchanges\<close> itself holds after every call (in any state)
  made when at least \<open>mergeFrequency\<close> exchanges, the new one included, were added since
  the last merge. Both bounds are for a positive \<open>maxRecentExchanges\<close>, the first also
  for a positive \<open>mergeFrequency\<close>.
\<close>

theorem C1_recent_exchanges_bound:
  "(addExchange cfg claude now fs cid q a = (Inr c', fs') \<and> files fs cid = Some c
      \<and> 0 < js_or (maxRecentExchanges cfg) 5
      \<and> js_or (mergeFrequency cfg) 3 \<le> exchangeCount c + 1 - lastMergeCount c
    \<longrightarrow> int (length (recentExchanges c')) \<le> js_or (maxRecentExchanges cfg) 5)
   \<and> (reachable cfg fs \<and> addExchange cfg claude now fs cid q a = (Inr c', fs')
      \<and> 0 < js_or (maxRecentExchanges cfg) 5 \<and> 0 < js_or (mergeFrequency cfg) 3
    \<longrightarrow> int (length (recentExchanges c'))
          \<le> js_or (maxRecentExchanges cfg) 5 + js_or (mergeFrequency cfg) 3 - 1)"
proof (intro conjI impI)
  assume a: "addExchange cfg claude now fs cid q a = (Inr c', fs') \<and> files fs cid = Some c
      \<and> 0 < js_or (maxRecentExchanges cfg) 5
      \<and> js_or (mergeFrequency cfg) 3 \<le> exchangeCount c + 1 - lastMergeCount c"
  with addExchange_Inr [of cfg claude now fs cid q a c' fs']
  have c': "c' = compacted cfg claude (pushed c now q a)" by auto
  show "int (length (recentExchanges c')) \<le> js_or (maxRecentExchanges cfg) 5"
  proof (cases "int (length (recentExchanges (pushed c now q a))) > js_or (maxRecentExchanges cfg) 5")
    case True
    with a have "c' = mergeExchangesToSummary cfg claude (pushed c now q a) (js_or (maxRecentExchanges cfg) 5)"
      unfolding c' by (simp add: compacted_def pushed_def)
    with merge_length [of "js_or (maxRecentExchanges cfg) 5" "pushed c now q a" cfg claude] True a
    show ?thesis by simp
  next
    case False
    then show ?thesis unfolding c' by (simp add: compacted_def)
  qed
next
  assume a: "reachable cfg fs \<and> addExchange cfg claude now fs cid q a = (Inr c', fs')
      \<and> 0 < js_or (maxRecentExchanges cfg) 5 \<and> 0 < js_or (mergeFrequency cfg) 3"
  then have "reachable cfg fs'" by (auto intro: reach_add)
  moreover from a addExchange_Inr [of cfg claude now fs cid q a c' fs']
  have "files fs' cid = Some c'" by auto
  ultimately have "conv_inv cfg c'" using reachable_inv a by blast
  with a show "int (length (recentExchanges c'))
          \<le> js_or (maxRecentExchanges cfg) 5 + js_or (mergeFrequency cfg) 3 - 1"
    unfolding conv_inv_def Let_def by linarith
qed

lemma two_exchanges_reachable:
  "reachable default_conversation_config \<lparr>files = [''c1'' \<mapsto> two_exchanges], writable = True\<rparr>"
proof -
  have "reachable default_conversation_config
          (snd (addExchanges default_conversation_config echo_claude
             (snd (createConversation \<lparr>files = Map.empty, writable = True\<rparr> ''c1'' ''t0'' ''idx''))
             ''c1'' [(''t'', ''q'', ''a''), (''t'', ''q'', ''a'')]))"
    by (intro reachable_addExchanges reach_create [OF reach_empty [of _ True]]) (rule surjective_pairing)
  also have "snd (addExchanges default_conversation_config echo_claude
             (snd (createConversation \<lparr>files = Map.empty, writable = True\<rparr> ''c1'' ''t0'' ''idx''))
             ''c1'' [(''t'', ''q'', ''a''), (''t'', ''q'', ''a'')])
           = \<lparr>files = [''c1'' \<mapsto> two_exchanges], writable = True\<rparr>"
    by (simp add: createConversation_def saveConversation_def addExchange_def getConversation_def
        Let_def default_conversation_bounds two_exchanges_def)
  finally show ?thesis .
qed

theorem C1_recent_exchanges_bound_witness:
  "reachable default_conversation_config \<lparr>files = [''c1'' \<mapsto> two_exchanges], writable = True\<rparr>
   \<and> files \<lparr>files = [''c1'' \<mapsto> two_exchanges], writable = True\<rparr> ''c1'' = Some two_exchanges
   \<and> 0 < js_or (maxRecentExchanges default_conversation_config) 5
   \<and> 0 < js_or (mergeFrequency default_conversation_config) 3
   \<and> js_or (mergeFrequency default_conversation_config) 3
        \<le> exchangeCount two_exchanges + 1 - lastMergeCount two_exchanges
   \<and> (\<exists>c' fs'. addExchange default_conversation_config echo_claude ''t''
                  \<lparr>files = [''c1'' \<mapsto> two_exchanges], writable = True\<rparr> ''c1'' ''q'' ''a''
                = (Inr c', fs')
         \<and> int (length (recentExchanges c')) \<le> 5
         \<and> int (length (recentExchanges c')) \<le> 5 + 3 - 1)"
proof -
  let ?fs = "\<lparr>files = [''c1'' \<mapsto> two_exchanges], writable = True\<rparr>"
  obtain c' fs' where run:
    "addExchange default_conversation_config echo_claude ''t'' ?fs ''c1'' ''q'' ''a'' = (Inr c', fs')"
    by (simp add: addExchange_def getConversation_def saveConversation_def Let_def
        default_conversation_bounds two_exchanges_def)
  have h: "files ?fs ''c1'' = Some two_exchanges"
    "0 < js_or (maxRecentExchanges default_conversation_config) 5"
    "0 < js_or (mergeFrequency default_conversation_config) 3"
    "js_or (mergeFrequency default_conversation_config) 3
        \<le> exchangeCount two_exchanges + 1 - lastMergeCount two_exchanges"
    by (simp_all add: default_conversation_bounds two_exchanges_def)
  from C1_recent_exchanges_bound [of default_conversation_config echo_claude "''t''" ?fs
      "''c1''" "''q''" "''a''" c' fs' two_exchanges] run h two_exchanges_reachable
  have "int (length (recentExchanges c')) \<le> 5 \<and> int (length (recentExchanges c')) \<le> 5 + 3 - 1"
    by (simp add: default_conversation_bounds)
  with run h two_exchanges_reachable show ?thesis by blast
qed

section \<open>Properties of the index store\<close>

lemma js_get_Own: "js_get kwi k = Own v \<longleftrightarrow> map_of kwi k = Some v"
  by (auto simp: js_get_def split: option.splits if_splits)

lemma js_get_Undefined: "js_get kwi k = Undefined \<Longrightarrow> map_of kwi k = None"
  by (auto simp: js_get_def split: option.splits if_splits)

lemma add_keywords_distinct:
  "add_keywords cid ks kwi = Inr kwi' \<Longrightarrow> distinct (map fst kwi) \<Longrightarrow> distinct (map fst kwi')"
proof (induction cid ks kwi rule: add_keywords.induct)
  case (1 cid kwi)
  then show ?case by simp
next
  case (2 cid keyword rest kwi)
  then show ?case
    by (cases "js_get kwi keyword") (simp_all add: distinct_update split: if_splits)
qed

lemma add_keywords_keys:
  "add_keywords cid ks kwi = Inr kwi' \<Longrightarrow> fst ` set kwi' = fst ` set kwi \<union> set ks"
proof (induction cid ks kwi rule: add_keywords.induct)
  case (1 cid kwi)
  then show ?case by simp
next
  case (2 cid keyword rest kwi)
  show ?case
  proof (cases "js_get kwi keyword")
    case (Own ids)
    then have "keyword \<in> fst ` set kwi"
      by (metis js_get_Own map_of_SomeD fst_conv image_eqI)
    with 2 Own show ?thesis
      by (auto simp: dom_update split: if_splits)
  next
    case Inherited
    with 2 show ?thesis by simp
  next
    case Undefined
    with 2 show ?thesis by (auto simp: dom_update)
  qed
qed

lemma values_within_lookup:
  "values_within S kwi \<Longrightarrow> map_of kwi k = Some ids \<Longrightarrow> distinct ids \<and> set ids \<subseteq> S"
  unfolding values_within_def by blast

lemma values_within_update:
  assumes w: "values_within S kwi" and v: "distinct v" "set v \<subseteq> S"
  shows "values_within S (AList.update k v kwi)"
proof -
  have "distinct ids \<and> set ids \<subseteq> S" if m: "map_of (AList.update k v kwi) k' = Some ids" for k' ids
  proof (cases "k' = k")
    case True
    with m have "ids = v" by (simp add: update_conv')
    with v show ?thesis by simp
  next
    case False
    with m have "map_of kwi k' = Some ids" by (simp add: update_conv')
    from values_within_lookup [OF w this] show ?thesis .
  qed
  then show ?thesis unfolding values_within_def by blast
qed

lemma add_keywords_step:
  assumes "add_keywords cid (keyword # rest) kwi = Inr kwi'"
  obtains (same) old where "map_of kwi keyword = Some old" "cid \<in> set old"
      "add_keywords cid rest kwi = Inr kwi'"
    | (append) old where "map_of kwi keyword = Some old" "cid \<notin> set old"
      "add_keywords cid rest (AList.update keyword (old @ [cid]) kwi) = Inr kwi'"
    | (fresh) "map_of kwi keyword = None"
      "add_keywords cid rest (AList.update keyword [cid] kwi) = Inr kwi'"
proof (cases "js_get kwi keyword")
  case (Own old)
  then have "map_of kwi keyword = Some old" by (simp add: js_get_Own)
  with assms Own same append show ?thesis
    by (cases "cid \<in> set old") simp_all
next
  case Inherited
  with assms show ?thesis by simp
next
  case Undefined
  with assms fresh js_get_Undefined [OF Undefined] show ?thesis by simp
qed

lemma add_keywords_values:
  "add_keywords cid ks kwi = Inr kwi' \<Longrightarrow> cid \<in> S \<Longrightarrow> values_within S kwi
   \<Longrightarrow> values_within S kwi'"
proof (induction ks arbitrary: kwi)
  case Nil
  then show ?case by simp
next
  case (Cons keyword rest)
  from Cons.prems(1) show ?case
  proof (cases rule: add_keywords_step)
    case (same old)
    from Cons.IH [OF same(3) Cons.prems(2,3)] show ?thesis .
  next
    case (append old)
    from values_within_lookup [OF Cons.prems(3) append(1)] append(2) Cons.prems(2)
    have "distinct (old @ [cid])" "set (old @ [cid]) \<subseteq> S" by auto
    then have "values_within S (AList.update keyword (old @ [cid]) kwi)"
      by (intro values_within_update Cons.prems(3))
    from Cons.IH [OF append(3) Cons.prems(2) this] show ?thesis .
  next
    case fresh
    have "values_within S (AList.update keyword [cid] kwi)"
      using Cons.prems(2) by (intro values_within_update Cons.prems(3)) simp_all
    from Cons.IH [OF fresh(2) Cons.prems(2) this] show ?thesis .
  qed
qed

lemma add_keywords_grows:
  "add_keywords cid ks kwi = Inr kwi' \<Longrightarrow> map_of kwi k = Some ids
   \<Longrightarrow> \<exists>ids'. map_of kwi' k = Some ids' \<and> set ids \<subseteq> set ids'"
proof (induction ks arbitrary: kwi ids)
  case Nil
  then show ?case by simp
next
  case (Cons keyword rest)
  from Cons.prems(1) show ?case
  proof (cases rule: add_keywords_step)
    case (same old)
    from Cons.IH [OF same(3) Cons.prems(2)] show ?thesis .
  next
    case (append old)
    obtain mid where mid: "map_of (AList.update keyword (old @ [cid]) kwi) k = Some mid"
        "set ids \<subseteq> set mid"
      using Cons.prems(2) append(1) by (cases "k = keyword") (auto simp: update_conv')
    from Cons.IH [OF append(3) mid(1)] mid(2) show ?thesis
      by (meson subset_trans)
  next
    case fresh
    have "map_of (AList.update keyword [cid] kwi) k = Some ids"
      using Cons.prems(2) fresh(1) by (cases "k = keyword") (auto simp: update_conv')
    from Cons.IH [OF fresh(2) this] show ?thesis .
  qed
qed

lemma add_keywords_hits:
  "add_keywords cid ks kwi = Inr kwi' \<Longrightarrow> k \<in> set ks
   \<Longrightarrow> \<exists>ids. map_of kwi' k = Some ids \<and> cid \<in> set ids"
proof (induction ks arbitrary: kwi)
  case Nil
  then show ?case by simp
next
  case (Cons keyword rest)
  from Cons.prems(1) show ?case
  proof (cases rule: add_keywords_step)
    case (same old)
    show ?thesis
    proof (cases "k = keyword")
      case True
      from add_keywords_grows [OF same(3) same(1)] same(2) True show ?thesis by auto
    next
      case False
      with Cons.prems(2) have "k \<in> set rest" by simp
      from Cons.IH [OF same(3) this] show ?thesis .
    qed
  next
    case (append old)
    show ?thesis
    proof (cases "k = keyword")
      case True
      have "map_of (AList.update keyword (old @ [cid]) kwi) keyword = Some (old @ [cid])"
        by (simp add: update_conv')
      from add_keywords_grows [OF append(3) this] True show ?thesis by auto
    next
      case False
      with Cons.prems(2) have "k \<in> set rest" by simp
      from Cons.IH [OF append(3) this] show ?thesis .
    qed
  next
    case fresh
    show ?thesis
    proof (cases "k = keyword")
      case True
      have "map_of (AList.update keyword [cid] kwi) keyword = Some [cid]"
        by (simp add: update_conv')
      from add_keywords_grows [OF fresh(2) this] True show ?thesis by auto
    next
      case False
      with Cons.prems(2) have "k \<in> set rest" by simp
      from Cons.IH [OF fresh(2) this] show ?thesis .
    qed
  qed
qed


lemma add_chunks_step:
  assumes "add_chunks keep (c # cs) kwi cks = Inr (kwi', cks')"
  obtains mid where "add_keywords (chunk_id c) (chunk_keywords c) kwi = Inr mid"
    "add_chunks keep cs mid (AList.update (chunk_id c) (store_chunk keep c) cks) = Inr (kwi', cks')"
  using assms by (cases "add_keywords (chunk_id c) (chunk_keywords c) kwi") simp_all

lemma add_chunks_distinct:
  "add_chunks keep cs kwi cks = Inr (kwi', cks') \<Longrightarrow> distinct (map fst kwi)
   \<Longrightarrow> distinct (map fst kwi')"
proof (induction cs arbitrary: kwi cks)
  case Nil
  then show ?case by simp
next
  case (Cons c cs)
  from Cons.prems(1) obtain mid where
    mid: "add_keywords (chunk_id c) (chunk_keywords c) kwi = Inr mid"
    and run: "add_chunks keep cs mid (AList.update (chunk_id c) (store_chunk keep c) cks) = Inr (kwi', cks')"
    by (rule add_chunks_step)
  from Cons.IH [OF run add_keywords_distinct [OF mid Cons.prems(2)]] show ?case .
qed

lemma add_chunks_keys:
  "add_chunks keep cs kwi cks = Inr (kwi', cks')
   \<Longrightarrow> fst ` set kwi' = fst ` set kwi \<union> (\<Union>c\<in>set cs. set (chunk_keywords c))"
proof (induction cs arbitrary: kwi cks)
  case Nil
  then show ?case by simp
next
  case (Cons c cs)
  from Cons.prems(1) obtain mid where
    mid: "add_keywords (chunk_id c) (chunk_keywords c) kwi = Inr mid"
    and run: "add_chunks keep cs mid (AList.update (chunk_id c) (store_chunk keep c) cks) = Inr (kwi', cks')"
    by (rule add_chunks_step)
  from Cons.IH [OF run] add_keywords_keys [OF mid] show ?case by auto
qed

lemma add_chunks_chunk_ids:
  "add_chunks keep cs kwi cks = Inr (kwi', cks')
   \<Longrightarrow> fst ` set cks' = fst ` set cks \<union> chunk_id ` set cs"
proof (induction cs arbitrary: kwi cks)
  case Nil
  then show ?case by simp
next
  case (Cons c cs)
  from Cons.prems(1) obtain mid where
    mid: "add_keywords (chunk_id c) (chunk_keywords c) kwi = Inr mid"
    and run: "add_chunks keep cs mid (AList.update (chunk_id c) (store_chunk keep c) cks) = Inr (kwi', cks')"
    by (rule add_chunks_step)
  from Cons.IH [OF run] show ?case by (auto simp: dom_update)
qed

lemma add_chunks_values:
  "add_chunks keep cs kwi cks = Inr (kwi', cks') \<Longrightarrow> chunk_id ` set cs \<subseteq> S
   \<Longrightarrow> values_within S kwi \<Longrightarrow> values_within S kwi'"
proof (induction cs arbitrary: kwi cks)
  case Nil
  then show ?case by simp
next
  case (Cons c cs)
  from Cons.prems(1) obtain mid where
    mid: "add_keywords (chunk_id c) (chunk_keywords c) kwi = Inr mid"
    and run: "add_chunks keep cs mid (AList.update (chunk_id c) (store_chunk keep c) cks) = Inr (kwi', cks')"
    by (rule add_chunks_step)
  from Cons.prems(2) have "chunk_id c \<in> S" "chunk_id ` set cs \<subseteq> S" by auto
  from Cons.IH [OF run this(2) add_keywords_values [OF mid this(1) Cons.prems(3)]] show ?case .
qed

lemma add_chunks_grows:
  "add_chunks keep cs kwi cks = Inr (kwi', cks') \<Longrightarrow> map_of kwi k = Some ids
   \<Longrightarrow> \<exists>ids'. map_of kwi' k = Some ids' \<and> set ids \<subseteq> set ids'"
proof (induction cs arbitrary: kwi cks ids)
  case Nil
  then show ?case by simp
next
  case (Cons c cs)
  from Cons.prems(1) obtain mid where
    mid: "add_keywords (chunk_id c) (chunk_keywords c) kwi = Inr mid"
    and run: "add_chunks keep cs mid (AList.update (chunk_id c) (store_chunk keep c) cks) = Inr (kwi', cks')"
    by (rule add_chunks_step)
  from add_keywords_grows [OF mid Cons.prems(2)] obtain ids1 where
    "map_of mid k = Some ids1" "set ids \<subseteq> set ids1" by blast
  with Cons.IH [OF run this(1)] show ?case by (meson subset_trans)
qed

lemma add_chunks_hits:
  "add_chunks keep cs kwi cks = Inr (kwi', cks') \<Longrightarrow> c \<in> set cs \<Longrightarrow> k \<in> set (chunk_keywords c)
   \<Longrightarrow> \<exists>ids. map_of kwi' k = Some ids \<and> chunk_id c \<in> set ids"
proof (induction cs arbitrary: kwi cks)
  case Nil
  then show ?case by simp
next
  case (Cons d cs)
  from Cons.prems(1) obtain mid where
    mid: "add_keywords (chunk_id d) (chunk_keywords d) kwi = Inr mid"
    and run: "add_chunks keep cs mid (AList.update (chunk_id d) (store_chunk keep d) cks) = Inr (kwi', cks')"
    by (rule add_chunks_step)
  show ?case
  proof (cases "c = d")
    case True
    from add_keywords_hits [OF mid] Cons.prems(3) True obtain ids1 where
      "map_of mid k = Some ids1" "chunk_id c \<in> set ids1" by blast
    with add_chunks_grows [OF run this(1)] show ?thesis by auto
  next
    case False
    with Cons.prems(2) have "c \<in> set cs" by simp
    from Cons.IH [OF run this Cons.prems(3)] show ?thesis .
  qed
qed

lemma created_index_build:
  assumes "created_index m fs uuid now cs opts = Some idx"
  shows "build_index m uuid now cs opts = Inr idx"
  using assms
  by (auto simp: created_index_def createIndex_def saveIndex_def loadIndex_def
      split: sum.splits if_splits)

lemma build_index_add_chunks:
  assumes "build_index m uuid now cs opts = Inr idx"
  shows "add_chunks (storeContent opts) cs [] [] = Inr (idx_keywordsIndex idx, idx_chunks idx)"
  using assms
  by (auto simp: build_index_def Let_def split: sum.splits)

text \<open>
  Claim C3, as stated, fails: \<open>createIndex\<close> never changes the case of a keyword. A
  chunk with the keyword \<open>Pricing\<close> yields an index whose keyword dictionary has the key
  \<open>Pricing\<close>, which is not a lowercase string.
\<close>

theorem C3_capital_keyword_counterexample:
  "map_option idx_keywordsIndex
     (created_index None \<lparr>indexes = Map.empty, indexes_writable = True\<rparr> ''u'' ''t''
        [pricing_chunk] \<lparr>opt_name = Some ''My Doc!'', storeContent = False\<rparr>)
     = Some [(''Pricing'', [''doc_chunk_2''])]
   \<and> toLowerCase ''Pricing'' \<noteq> ''Pricing''"
  by code_simp

text \<open>
  Claim C3, amended. In the index that \<open>createIndex\<close> stores, the keys of the keyword
  dictionary are exactly the keywords attached to the chunks, as they were given (no
  change of case); each keyword is one key; every keyword of a chunk maps to a list that
  holds the chunk's identifier; and every list is free of duplicates and holds only
  identifiers of the given chunks. So a key is lowercase exactly when the keyword given
  was.
\<close>

theorem C3_keywords_stored_verbatim:
  assumes "created_index m fs uuid now cs opts = Some idx"
  shows "fst ` set (idx_keywordsIndex idx) = (\<Union>c\<in>set cs. set (chunk_keywords c))
   \<and> distinct (map fst (idx_keywordsIndex idx))
   \<and> (\<forall>c\<in>set cs. \<forall>k\<in>set (chunk_keywords c).
         \<exists>ids. map_of (idx_keywordsIndex idx) k = Some ids \<and> chunk_id c \<in> set ids)
   \<and> (\<forall>k ids. map_of (idx_keywordsIndex idx) k = Some ids
         \<longrightarrow> distinct ids \<and> set ids \<subseteq> chunk_id ` set cs)"
proof -
  from build_index_add_chunks [OF created_index_build [OF assms]]
  have run: "add_chunks (storeContent opts) cs [] [] = Inr (idx_keywordsIndex idx, idx_chunks idx)" .
  have "values_within (chunk_id ` set cs) []" by (simp add: values_within_def)
  from add_chunks_values [OF run subset_refl this]
  have "\<forall>k ids. map_of (idx_keywordsIndex idx) k = Some ids
         \<longrightarrow> distinct ids \<and> set ids \<subseteq> chunk_id ` set cs"
    unfolding values_within_def .
  moreover from add_chunks_keys [OF run]
  have "fst ` set (idx_keywordsIndex idx) = (\<Union>c\<in>set cs. set (chunk_keywords c))" by simp
  moreover from add_chunks_distinct [OF run]
  have "distinct (map fst (idx_keywordsIndex idx))" by simp
  moreover from add_chunks_hits [OF run]
  have "\<forall>c\<in>set cs. \<forall>k\<in>set (chunk_keywords c).
         \<exists>ids. map_of (idx_keywordsIndex idx) k = Some ids \<and> chunk_id c \<in> set ids"
    by blast
  ultimately show ?thesis by blast
qed

theorem C3_keywords_stored_verbatim_witness:
  "\<exists>idx. created_index None \<lparr>indexes = Map.empty, indexes_writable = True\<rparr> ''u'' ''t''
            [pricing_chunk] \<lparr>opt_name = Some ''My Doc!'', storeContent = False\<rparr> = Some idx
     \<and> fst ` set (idx_keywordsIndex idx) = (\<Union>c\<in>set [pricing_chunk]. set (chunk_keywords c))
     \<and> distinct (map fst (idx_keywordsIndex idx))
     \<and> (\<forall>c\<in>set [pricing_chunk]. \<forall>k\<in>set (chunk_keywords c).
           \<exists>ids. map_of (idx_keywordsIndex idx) k = Some ids \<and> chunk_id c \<in> set ids)
     \<and> (\<forall>k ids. map_of (idx_keywordsIndex idx) k = Some ids
           \<longrightarrow> distinct ids \<and> set ids \<subseteq> chunk_id ` set [pricing_chunk])"
proof -
  have "created_index None \<lparr>indexes = Map.empty, indexes_writable = True\<rparr> ''u'' ''t''
            [pricing_chunk] \<lparr>opt_name = Some ''My Doc!'', storeContent = False\<rparr> \<noteq> None"
    by code_simp
  then obtain idx where built:
    "created_index None \<lparr>indexes = Map.empty, indexes_writable = True\<rparr> ''u'' ''t''
            [pricing_chunk] \<lparr>opt_name = Some ''My Doc!'', storeContent = False\<rparr> = Some idx"
    by blast
  from C3_keywords_stored_verbatim [OF built] built show ?thesis
    by blast
qed

section \<open>Properties of the retriever\<close>

lemma unique_acc:
  "distinct acc \<Longrightarrow> distinct (foldl set_insert acc xs) \<and> set (foldl set_insert acc xs) = set acc \<union> set xs"
  by (induction xs arbitrary: acc) (auto simp: set_insert_def)

lemma distinct_unique: "distinct (unique xs)"
  using unique_acc [of "[]" xs] by (simp add: unique_def)

lemma set_unique: "set (unique xs) = set xs"
  using unique_acc [of "[]" xs] by (simp add: unique_def)

lemma foldl_set_insert_distinct:
  "distinct (acc @ xs) \<Longrightarrow> foldl set_insert acc xs = acc @ xs"
  by (induction xs arbitrary: acc) (auto simp: set_insert_def)

lemma unique_distinct_id: "distinct xs \<Longrightarrow> unique xs = xs"
  using foldl_set_insert_distinct [of "[]" xs] by (simp add: unique_def)

lemma map_fst_relevanceWeighted: "map fst (relevanceWeighted G i ids) = ids"
proof -
  have "map fst (relevanceWeighted G i ids) = map fst (zip ids [0..<length ids])"
    by (simp add: relevanceWeighted_def case_prod_unfold comp_def)
  then show ?thesis by simp
qed

lemma length_relevanceWeighted: "length (relevanceWeighted G i ids) = length ids"
  by (simp add: relevanceWeighted_def)

lemma nth_relevanceWeighted:
  "r < length ids \<Longrightarrow> relevanceWeighted G i ids ! r
     = (ids ! r, js_add (of_nat G - of_nat i)
                   (js_div (of_nat (length ids) - of_nat r) (of_nat (length ids))))"
  by (simp add: relevanceWeighted_def)

lemma rank_quotient_bounds:
  assumes "r < n"
  shows "0 \<le> js_div (of_nat n - of_nat r) (of_nat n)"
    and "js_div (of_nat n - of_nat r) (of_nat n) \<le> 1"
proof -
  have n: "(0::rat) < of_nat n" using assms by simp
  have "(0::rat) \<le> (of_nat n - of_nat r) / of_nat n"
    using assms n by simp
  from fl_mono [OF this] show "0 \<le> js_div (of_nat n - of_nat r) (of_nat n)"
    by (simp add: js_div_def fl_zero)
  have "(of_nat n - of_nat r :: rat) \<le> of_nat n" by simp
  then have "(of_nat n - of_nat r) / of_nat n \<le> (1::rat)"
    using n by (simp add: divide_le_eq)
  from fl_mono [OF this] show "js_div (of_nat n - of_nat r) (of_nat n) \<le> 1"
    by (simp add: js_div_def fl_one)
qed

lemma rank_quotient_decreasing:
  assumes "r < s" "s < n"
  shows "js_div (of_nat n - of_nat s) (of_nat n) \<le> js_div (of_nat n - of_nat r) (of_nat n)"
proof -
  have n: "(0::rat) < of_nat n" using assms by simp
  have "(of_nat n - of_nat s :: rat) \<le> of_nat n - of_nat r"
    using assms by simp
  then have "(of_nat n - of_nat s) / of_nat n \<le> (of_nat n - of_nat r :: rat) / of_nat n"
    using n by (simp add: divide_le_cancel)
  from fl_mono [OF this] show ?thesis by (simp add: js_div_def)
qed

lemma score_decreasing:
  assumes "r < s" "s < length ids"
  shows "snd (relevanceWeighted G i ids ! s) \<le> snd (relevanceWeighted G i ids ! r)"
proof -
  from rank_quotient_decreasing [OF assms]
  have "of_nat G - of_nat i + js_div (of_nat (length ids) - of_nat s) (of_nat (length ids))
      \<le> of_nat G - of_nat i + js_div (of_nat (length ids) - of_nat r) (of_nat (length ids))"
    by simp
  from fl_mono [OF this] show ?thesis
    using assms by (simp add: nth_relevanceWeighted js_add_def)
qed

lemma descending_relevanceWeighted: "descending (relevanceWeighted G i ids)"
  unfolding descending_def
proof (subst sorted_iff_nth_mono_less, intro allI impI)
  fix r s assume rs: "r < s" and s: "s < length (map (\<lambda>item. - snd item) (relevanceWeighted G i ids))"
  then have "s < length ids" "r < length ids" by (simp_all add: length_relevanceWeighted)
  with score_decreasing [OF rs this(1), of G i] show "map (\<lambda>item. - snd item) (relevanceWeighted G i ids) ! r
      \<le> map (\<lambda>item. - snd item) (relevanceWeighted G i ids) ! s"
    by (simp add: length_relevanceWeighted)
qed

lemma sort_descending_id: "descending items \<Longrightarrow> sort_by_score_desc items = items"
  by (simp add: descending_def sort_by_score_desc_def sort_key_id_if_sorted)

lemma slice_all: "int (length xs) \<le> n \<Longrightarrow> slice xs 0 n = xs"
  by (simp add: slice_def Let_def min_absorb1)

lemma group_loop_single:
  assumes "allChunks \<noteq> []" "int (length allChunks) \<le> chunkSize"
  shows "group_loop chunkSize allChunks 0 [] = Some [allChunks]"
proof -
  have "group_loop chunkSize allChunks 0 [] = group_loop chunkSize allChunks chunkSize [allChunks]"
    using assms by (subst group_loop.simps) (simp add: slice_all)
  also have "\<dots> = Some [allChunks]"
    using assms by (subst group_loop.simps) simp
  finally show ?thesis .
qed

lemma process_groups_answers:
  assumes "\<forall>g\<in>set gs. \<exists>response. claude (ChunkSelectionPrompt overall g q) = Inr response"
  shows "process_groups claude parseIds overall q G i gs acc
     = Inr (acc @ concatenated_scores G i (map (group_ids claude parseIds overall q) gs))"
  using assms
proof (induction gs arbitrary: i acc)
  case Nil
  then show ?case by simp
next
  case (Cons g gs)
  from Cons.prems obtain response where r: "claude (ChunkSelectionPrompt overall g q) = Inr response"
    by auto
  from Cons.prems have "\<forall>g\<in>set gs. \<exists>response. claude (ChunkSelectionPrompt overall g q) = Inr response"
    by simp
  from Cons.IH [OF this] r show ?case
    by (simp add: group_ids_def)
qed

lemma map_fst_concatenated_scores: "map fst (concatenated_scores G i idss) = concat idss"
  by (induction idss arbitrary: i) (simp_all add: map_fst_relevanceWeighted)

text \<open>
  Every score of group \<open>i\<close> is the rounding of a number between \<open>G - i\<close> and
  \<open>G - i + 1\<close>, and the scores of the later groups are roundings of numbers that are at
  most \<open>G - i\<close>.
\<close>

lemma relevanceWeighted_member:
  assumes "x \<in> set (relevanceWeighted G i ids)"
  shows "\<exists>t. snd x = fl t \<and> of_nat G - of_nat i \<le> t \<and> t \<le> of_nat G - of_nat i + 1"
proof -
  from assms obtain r where r: "r < length ids" "x = relevanceWeighted G i ids ! r"
    by (auto simp: in_set_conv_nth length_relevanceWeighted)
  let ?t = "of_nat G - of_nat i + js_div (of_nat (length ids) - of_nat r) (of_nat (length ids))"
  have "snd x = fl ?t" using r by (simp add: nth_relevanceWeighted js_add_def)
  moreover have "of_nat G - of_nat i \<le> ?t" "?t \<le> of_nat G - of_nat i + 1"
    using rank_quotient_bounds [OF r(1)] by simp_all
  ultimately show ?thesis by blast
qed

lemma concatenated_scores_upper:
  "x \<in> set (concatenated_scores G i idss)
     \<Longrightarrow> \<exists>t. snd x = fl t \<and> t \<le> of_nat G - of_nat i + 1"
proof (induction idss arbitrary: i)
  case Nil
  then show ?case by simp
next
  case (Cons ids rest)
  from Cons.prems consider "x \<in> set (relevanceWeighted G i ids)"
    | "x \<in> set (concatenated_scores G (Suc i) rest)" by auto
  then show ?case
  proof cases
    case 1
    with relevanceWeighted_member show ?thesis by blast
  next
    case 2
    from Cons.IH [OF this] obtain t where "snd x = fl t" "t \<le> of_nat G - of_nat (Suc i) + 1"
      by blast
    then have "snd x = fl t \<and> t \<le> of_nat G - of_nat i + 1" by simp
    then show ?thesis by blast
  qed
qed

lemma descending_concatenated_scores: "descending (concatenated_scores G i idss)"
proof (induction idss arbitrary: i)
  case Nil
  then show ?case by (simp add: descending_def)
next
  case (Cons ids rest)
  have "snd b \<le> snd a"
    if "a \<in> set (relevanceWeighted G i ids)" "b \<in> set (concatenated_scores G (Suc i) rest)" for a b
  proof -
    from relevanceWeighted_member [OF that(1)] obtain ta
      where a: "snd a = fl ta" "of_nat G - of_nat i \<le> ta" by blast
    from concatenated_scores_upper [OF that(2)] obtain tb
      where b: "snd b = fl tb" "tb \<le> of_nat G - of_nat (Suc i) + 1" by blast
    from a(2) b(2) have "tb \<le> ta" by simp
    from fl_mono [OF this] a(1) b(1) show ?thesis by simp
  qed
  with Cons.IH [of "Suc i"] descending_relevanceWeighted [of G i ids] show ?case
    by (auto simp: descending_def sorted_append)
qed

lemma group_loop_returns:
  assumes "0 < chunkSize" "0 \<le> i"
  shows "\<exists>new. group_loop chunkSize allChunks i acc = Some (acc @ new)
     \<and> concat new = drop (nat i) allChunks
     \<and> (\<forall>g\<in>set new. g \<noteq> [] \<and> int (length g) \<le> chunkSize)"
  using assms(2)
proof (induction "nat (int (length allChunks) - i)" arbitrary: i acc rule: less_induct)
  case less
  show ?case
  proof (cases "i < int (length allChunks)")
    case False
    then show ?thesis
      by (subst group_loop.simps) simp
  next
    case True
    let ?g = "slice allChunks i (i + chunkSize)"
    have g: "?g = take (nat chunkSize) (drop (nat i) allChunks)"
    proof (cases "i + chunkSize \<le> int (length allChunks)")
      case le: True
      have "min (i + chunkSize) (int (length allChunks)) - min i (int (length allChunks)) = chunkSize"
        using le True by simp
      then show ?thesis
        using True less.prems assms(1) by (simp add: slice_def Let_def)
    next
      case gt: False
      have "min (i + chunkSize) (int (length allChunks)) - min i (int (length allChunks))
          = int (length allChunks) - i"
        using gt True by simp
      moreover have "length (drop (nat i) allChunks) \<le> nat (int (length allChunks) - i)"
        using less.prems by simp
      moreover have "length (drop (nat i) allChunks) \<le> nat chunkSize"
        using gt less.prems by simp
      ultimately show ?thesis
        using True less.prems assms(1) by (simp add: slice_def Let_def)
    qed
    have "nat (int (length allChunks) - (i + chunkSize)) < nat (int (length allChunks) - i)"
      using True assms(1) by simp
    moreover have "0 \<le> i + chunkSize" using less.prems assms(1) by simp
    ultimately obtain new where
      run: "group_loop chunkSize allChunks (i + chunkSize) (acc @ [?g]) = Some ((acc @ [?g]) @ new)"
      and cat: "concat new = drop (nat (i + chunkSize)) allChunks"
      and sz: "\<forall>g\<in>set new. g \<noteq> [] \<and> int (length g) \<le> chunkSize"
      using less.hyps [of "i + chunkSize" "acc @ [?g]"] by blast
    have "group_loop chunkSize allChunks i acc = Some (acc @ (?g # new))"
      using True run by (subst group_loop.simps) simp
    moreover have "concat (?g # new) = drop (nat i) allChunks"
    proof -
      have "nat (i + chunkSize) = nat chunkSize + nat i"
        using less.prems assms(1) by (simp add: nat_add_distrib)
      then have "concat new = drop (nat chunkSize) (drop (nat i) allChunks)"
        using cat by (simp only: drop_drop)
      then have "concat (?g # new)
          = take (nat chunkSize) (drop (nat i) allChunks) @ drop (nat chunkSize) (drop (nat i) allChunks)"
        using g by (simp only: concat.simps)
      then show ?thesis by (simp only: append_take_drop_id)
    qed
    moreover have "?g \<noteq> [] \<and> int (length ?g) \<le> chunkSize"
      using True less.prems assms(1) unfolding g by auto
    ultimately show ?thesis using sz by auto
  qed
qed

lemma bump_keys: "fst ` set (bump chunkScores chunkId) = insert chunkId (fst ` set chunkScores)"
  by (simp add: bump_def dom_update)

lemma foldl_bump_keys: "fst ` set (foldl bump chunkScores ids) = fst ` set chunkScores \<union> set ids"
  by (induction ids arbitrary: chunkScores) (auto simp: bump_keys)

lemma score_keywords_returns:
  assumes "\<forall>k\<in>set ks. js_get (idx_keywordsIndex idx) k \<noteq> Inherited"
    and "\<forall>k ids. map_of (idx_keywordsIndex idx) k = Some ids \<longrightarrow> set ids \<subseteq> D"
    and "fst ` set chunkScores \<subseteq> D"
  shows "\<exists>scores. score_keywords idx ks chunkScores = Inr scores \<and> fst ` set scores \<subseteq> D"
  using assms(1,3)
proof (induction ks arbitrary: chunkScores)
  case Nil
  then show ?case by simp
next
  case (Cons k ks)
  from Cons.prems(1) have rest: "\<forall>k\<in>set ks. js_get (idx_keywordsIndex idx) k \<noteq> Inherited"
    and k: "js_get (idx_keywordsIndex idx) k \<noteq> Inherited" by simp_all
  show ?case
  proof (cases "js_get (idx_keywordsIndex idx) k")
    case (Own ids)
    then have "map_of (idx_keywordsIndex idx) k = Some ids" by (simp add: js_get_Own)
    with assms(2) have "set ids \<subseteq> D" by blast
    with Cons.prems(2) have "fst ` set (foldl bump chunkScores ids) \<subseteq> D"
      by (simp add: foldl_bump_keys)
    from Cons.IH [OF rest this] Own show ?thesis by simp
  next
    case Inherited
    with k show ?thesis by simp
  next
    case Undefined
    with Cons.IH [OF rest Cons.prems(2)] show ?thesis by simp
  qed
qed

lemma collect_chunks_returns:
  assumes "fst ` set items \<subseteq> fst ` set (idx_chunks idx)"
  shows "\<exists>cs. collect_chunks src idx items = Inr cs \<and> length cs = length items"
  using assms
proof (induction items)
  case Nil
  then show ?case by simp
next
  case (Cons item items)
  obtain chunkId n where item: "item = (chunkId, n)" by (cases item)
  with Cons.prems have "chunkId \<in> fst ` set (idx_chunks idx)" by simp
  then obtain chunk where c: "map_of (idx_chunks idx) chunkId = Some chunk"
    by (metis map_of_eq_None_iff not_Some_eq)
  from Cons.prems have "fst ` set items \<subseteq> fst ` set (idx_chunks idx)" by simp
  from Cons.IH [OF this] obtain cs where "collect_chunks src idx items = Inr cs"
    "length cs = length items" by blast
  with c item show ?case by simp
qed

lemma keywords_strategy_returns:
  assumes "\<forall>k\<in>set (extractKeywordsFromQuestion cfg q). js_get (idx_keywordsIndex idx) k \<noteq> Inherited"
    and "\<forall>k ids. map_of (idx_keywordsIndex idx) k = Some ids \<longrightarrow> set ids \<subseteq> fst ` set (idx_chunks idx)"
  shows "\<exists>r. findRelevantChunksWithKeywords cfg src idx q = Inr r"
proof -
  from score_keywords_returns [OF assms, of "[]"] obtain scores where
    s: "score_keywords idx (extractKeywordsFromQuestion cfg q) [] = Inr scores"
    and d: "fst ` set scores \<subseteq> fst ` set (idx_chunks idx)" by auto
  have "fst ` set (take n (sort_key (\<lambda>item. - snd item) scores)) \<subseteq> fst ` set (idx_chunks idx)" for n
  proof -
    have "set (take n (sort_key (\<lambda>item. - snd item) scores)) \<subseteq> set scores"
      using set_take_subset [of n "sort_key (\<lambda>item. - snd item) scores"] by simp
    with d show ?thesis by blast
  qed
  from collect_chunks_returns [OF this] s show ?thesis
    by (simp add: findRelevantChunksWithKeywords_def Let_def) blast
qed

lemma group_loop_Some_progress:
  assumes "group_loop chunkSize allChunks i groups = Some result"
  shows "\<not> (chunkSize \<le> 0 \<and> i < int (length allChunks))"
proof (rule group_loop.raw_induct
    [where P = "\<lambda>chunkSize allChunks i groups result.
                    \<not> (chunkSize \<le> 0 \<and> i < int (length allChunks))",
     OF _ assms])
  fix f chunkSize allChunks i groups result
  assume IH: "\<And>chunkSize allChunks i groups result.
      f chunkSize allChunks i groups = Some result
        \<Longrightarrow> \<not> (chunkSize \<le> 0 \<and> i < int (length allChunks))"
    and step: "(if i < int (length allChunks)
       then f chunkSize allChunks (i + chunkSize) (groups @ [slice allChunks i (i + chunkSize)])
       else Some groups) = Some result"
  show "\<not> (chunkSize \<le> 0 \<and> i < int (length allChunks))"
  proof
    assume a: "chunkSize \<le> 0 \<and> i < int (length allChunks)"
    with step have "f chunkSize allChunks (i + chunkSize)
        (groups @ [slice allChunks i (i + chunkSize)]) = Some result"
      by simp
    from IH [OF this] a show False by simp
  qed
qed

text \<open>
  Claim C8. When the index has at least one chunk and no more chunks than the group
  size, the grouped strategy forms one group, sends the prompt of the simple strategy,
  and returns the identifiers of the simple strategy in the same order, each kept at its
  first occurrence; a failure of the collaborator is the same failure in both. (A list
  that names no identifier twice is left as it is, \<open>unique_distinct_id\<close>, and the two
  results are then equal.)
\<close>

theorem C8_single_group_same_order:
  assumes "idx_chunks idx \<noteq> []" "int (length (idx_chunks idx)) \<le> chunkSize"
  shows "findRelevantChunksWithSplitStrategy claude parseIds idx q chunkSize
     = Some (case findRelevantChunksSimple claude parseIds idx q of
               Inl e \<Rightarrow> Inl e
             | Inr ids \<Rightarrow> Inr (unique ids))"
proof -
  have g: "group_loop chunkSize (chunk_summaries idx) 0 [] = Some [chunk_summaries idx]"
    using assms by (intro group_loop_single) (simp_all add: chunk_summaries_def)
  show ?thesis
  proof (cases "claude (ChunkSelectionPrompt (idx_overallSummary idx) (chunk_summaries idx) q)")
    case (Inl e)
    then show ?thesis
      by (simp add: findRelevantChunksWithSplitStrategy_def split_strategy_results_def g
          findRelevantChunksSimple_def)
  next
    case (Inr response)
    then show ?thesis
      by (simp add: findRelevantChunksWithSplitStrategy_def split_strategy_results_def g
          findRelevantChunksSimple_def sort_descending_id descending_relevanceWeighted
          map_fst_relevanceWeighted)
  qed
qed

theorem C8_single_group_same_order_witness:
  "idx_chunks three_chunks \<noteq> [] \<and> int (length (idx_chunks three_chunks)) \<le> 50
   \<and> findRelevantChunksSimple echo_claude bab_ids three_chunks ''q'' = Inr [''b'', ''a'', ''b'']
   \<and> findRelevantChunksWithSplitStrategy echo_claude bab_ids three_chunks ''q'' 50
       = Some (Inr [''b'', ''a''])"
proof -
  have h1: "idx_chunks three_chunks \<noteq> []" and h2: "int (length (idx_chunks three_chunks)) \<le> 50"
    by (simp_all add: three_chunks_def)
  have s: "findRelevantChunksSimple echo_claude bab_ids three_chunks ''q'' = Inr [''b'', ''a'', ''b'']"
    by (simp add: findRelevantChunksSimple_def echo_claude_def bab_ids_def)
  have u: "unique [''b'', ''a'', ''b''] = [''b'', ''a'']"
    by (simp add: unique_def set_insert_def)
  from C8_single_group_same_order [OF h1 h2, of echo_claude bab_ids "''q''"] h1 h2 s u
  show ?thesis by simp
qed

text \<open>
  Claim C2, as stated, fails in its score: the denominator is the number of identifiers
  returned for the group, not the group size. With one group of three chunks (group
  size 3) and a response naming two identifiers, the second one (rank 1) gets
  \<open>1 + (2 - 1) / 2 = 3/2\<close>, where the claim's formula \<open>1 + (3 - 1) / 3\<close> gives
  \<open>1.6666666666666665\<close> in double precision and \<open>5/3\<close> over the rationals.
\<close>

theorem C2_score_denominator_counterexample:
  "split_strategy_results echo_claude ab_ids three_chunks ''q'' 3
     = Some (Inr [(''a'', 2), (''b'', 3 / 2)])
   \<and> js_add (1 - 0) (js_div (3 - 1) 3) = 3752999689475413 / 2251799813685248
   \<and> (3 / 2 :: rat) \<noteq> js_add (1 - 0) (js_div (3 - 1) 3)
   \<and> (3 / 2 :: rat) \<noteq> (1 - 0) + (3 - 1) / 3"
proof (intro conjI)
  have g: "group_loop 3 (chunk_summaries three_chunks) 0 [] = Some [chunk_summaries three_chunks]"
    by (intro group_loop_single) (simp_all add: chunk_summaries_def three_chunks_def)
  have w: "relevanceWeighted (Suc 0) 0 [''a'', ''b''] = [(''a'', 2), (''b'', 3 / 2)]"
    by code_simp
  have d: "descending [(''a'', 2), (''b'', 3 / 2)]"
    using descending_relevanceWeighted [of "Suc 0" 0 "[''a'', ''b'']"] unfolding w .
  show "split_strategy_results echo_claude ab_ids three_chunks ''q'' 3
     = Some (Inr [(''a'', 2), (''b'', 3 / 2)])"
    by (simp add: split_strategy_results_def g echo_claude_def ab_ids_def w
        sort_descending_id [OF d])
  show c: "js_add (1 - 0) (js_div (3 - 1) 3) = 3752999689475413 / 2251799813685248"
    by code_simp
  show "(3 / 2 :: rat) \<noteq> js_add (1 - 0) (js_div (3 - 1) 3)"
    unfolding c by simp
  show "(3 / 2 :: rat) \<noteq> (1 - 0) + (3 - 1) / 3"
    by simp
qed

text \<open>
  Claim C2, amended. For a positive group size and a collaborator that answers every
  prompt: the loop partitions the chunks, in order, into non-empty groups of at most
  \<open>chunkSize\<close> chunks; the identifier at rank \<open>r\<close> of the \<open>n\<close> identifiers returned for group
  \<open>i\<close> of \<open>G\<close> groups is scored \<open>(G - i) + (n - r) / n\<close> in the double-precision arithmetic
  of the program, the quotient being rounded and then the sum; the scored results,
  concatenated in the order of the groups, are already in descending order of score, so
  the stable sort leaves them as they are; and the strategy returns their identifiers,
  each kept at its first occurrence.
\<close>

theorem C2_grouped_scores_and_order:
  assumes "0 < chunkSize"
    and "\<forall>g. \<exists>response. claude (ChunkSelectionPrompt (idx_overallSummary idx) g q) = Inr response"
  shows "\<exists>groups. group_loop chunkSize (chunk_summaries idx) 0 [] = Some groups
     \<and> concat groups = chunk_summaries idx
     \<and> (\<forall>g\<in>set groups. g \<noteq> [] \<and> int (length g) \<le> chunkSize)
     \<and> (\<forall>G i ids r. r < length ids \<longrightarrow>
           relevanceWeighted G i ids ! r
             = (ids ! r, fl (of_nat G - of_nat i
                           + fl ((of_nat (length ids) - of_nat r) / of_nat (length ids)))))
     \<and> split_strategy_results claude parseIds idx q chunkSize
         = Some (Inr (concatenated_scores (length groups) 0
                        (map (group_ids claude parseIds (idx_overallSummary idx) q) groups)))
     \<and> descending (concatenated_scores (length groups) 0
                        (map (group_ids claude parseIds (idx_overallSummary idx) q) groups))
     \<and> findRelevantChunksWithSplitStrategy claude parseIds idx q chunkSize
         = Some (Inr (unique (concat
                        (map (group_ids claude parseIds (idx_overallSummary idx) q) groups))))"
proof -
  from group_loop_returns [OF assms(1), of 0 "chunk_summaries idx" "[]"]
  obtain groups where g: "group_loop chunkSize (chunk_summaries idx) 0 [] = Some groups"
    and cat: "concat groups = chunk_summaries idx"
    and sz: "\<forall>g\<in>set groups. g \<noteq> [] \<and> int (length g) \<le> chunkSize"
    by auto
  let ?scores = "concatenated_scores (length groups) 0
                        (map (group_ids claude parseIds (idx_overallSummary idx) q) groups)"
  have p: "process_groups claude parseIds (idx_overallSummary idx) q (length groups) 0 groups []
      = Inr ?scores"
    using process_groups_answers [of groups claude "idx_overallSummary idx" q parseIds "length groups" 0 "[]"]
      assms(2) by simp
  have d: "descending ?scores" by (rule descending_concatenated_scores)
  have s: "split_strategy_results claude parseIds idx q chunkSize = Some (Inr ?scores)"
    by (simp add: split_strategy_results_def g p sort_descending_id [OF d])
  have f: "findRelevantChunksWithSplitStrategy claude parseIds idx q chunkSize
         = Some (Inr (unique (concat
                        (map (group_ids claude parseIds (idx_overallSummary idx) q) groups))))"
    by (simp add: findRelevantChunksWithSplitStrategy_def s map_fst_concatenated_scores)
  have n: "\<forall>G i ids r. r < length ids \<longrightarrow>
           relevanceWeighted G i ids ! r
             = (ids ! r, fl (of_nat G - of_nat i
                           + fl ((of_nat (length ids) - of_nat r) / of_nat (length ids))))"
    by (simp add: nth_relevanceWeighted js_add_def js_div_def)
  from g cat sz n s d f show ?thesis by blast
qed

theorem C2_grouped_scores_and_order_witness:
  "(0::int) < 2
   \<and> split_strategy_results echo_claude bab_ids three_chunks ''q'' 2
       = Some (Inr [(''b'', 3),
                    (''a'', 6004799503160661 / 2251799813685248),
                    (''b'', 5254199565265579 / 2251799813685248),
                    (''b'', 2),
                    (''a'', 3752999689475413 / 2251799813685248),
                    (''b'', 6004799503160661 / 4503599627370496)])
   \<and> findRelevantChunksWithSplitStrategy echo_claude bab_ids three_chunks ''q'' 2
       = Some (Inr [''b'', ''a''])"
proof -
  have h1: "(0::int) < 2" by simp
  have h2: "\<forall>g. \<exists>response.
      echo_claude (ChunkSelectionPrompt (idx_overallSummary three_chunks) g ''q'') = Inr response"
    by (simp add: echo_claude_def)
  from C2_grouped_scores_and_order [OF h1 h2, of bab_ids]
  obtain groups where g: "group_loop 2 (chunk_summaries three_chunks) 0 [] = Some groups"
    and s: "split_strategy_results echo_claude bab_ids three_chunks ''q'' 2
         = Some (Inr (concatenated_scores (length groups) 0
                        (map (group_ids echo_claude bab_ids (idx_overallSummary three_chunks) ''q'') groups)))"
    and f: "findRelevantChunksWithSplitStrategy echo_claude bab_ids three_chunks ''q'' 2
         = Some (Inr (unique (concat
                        (map (group_ids echo_claude bab_ids (idx_overallSummary three_chunks) ''q'') groups))))"
    by blast
  have "group_loop 2 (chunk_summaries three_chunks) 0 []
      = Some [[(''a'', ''About a''), (''b'', ''About b'')], [(''c'', ''About c'')]]"
    by code_simp
  with g have groups: "groups = [[(''a'', ''About a''), (''b'', ''About b'')], [(''c'', ''About c'')]]"
    by simp
  have ids: "group_ids echo_claude bab_ids overall ''q'' grp = [''b'', ''a'', ''b'']" for overall grp
    by (simp add: group_ids_def echo_claude_def bab_ids_def)
  have lg: "length groups = 2" by (simp add: groups)
  have m: "map (group_ids echo_claude bab_ids (idx_overallSummary three_chunks) ''q'') groups
      = [[''b'', ''a'', ''b''], [''b'', ''a'', ''b'']]"
    by (simp add: groups ids)
  have w: "concatenated_scores 2 0 [[''b'', ''a'', ''b''], [''b'', ''a'', ''b'']]
      = [(''b'', 3),
         (''a'', 6004799503160661 / 2251799813685248),
         (''b'', 5254199565265579 / 2251799813685248),
         (''b'', 2),
         (''a'', 3752999689475413 / 2251799813685248),
         (''b'', 6004799503160661 / 4503599627370496)]"
    by code_simp
  have u: "unique [''b'', ''a'', ''b'', ''b'', ''a'', ''b''] = [''b'', ''a'']"
    by (simp add: unique_def set_insert_def)
  from s have s': "split_strategy_results echo_claude bab_ids three_chunks ''q'' 2
       = Some (Inr [(''b'', 3),
                    (''a'', 6004799503160661 / 2251799813685248),
                    (''b'', 5254199565265579 / 2251799813685248),
                    (''b'', 2),
                    (''a'', 3752999689475413 / 2251799813685248),
                    (''b'', 6004799503160661 / 4503599627370496)])"
    unfolding lg m w .
  from f have f': "findRelevantChunksWithSplitStrategy echo_claude bab_ids three_chunks ''q'' 2
       = Some (Inr [''b'', ''a''])"
    unfolding m by (simp add: u)
  from h1 s' f' show ?thesis by blast
qed

lemma findRelevantChunks_falls_back:
  assumes "primary_strategy cfg claude parseIds idx q = Some (Inl e)"
  shows "findRelevantChunks cfg claude parseIds src idx q
     = Some (case findRelevantChunksWithKeywords cfg src idx q of
               Inl e' \<Rightarrow> Inl e'
             | Inr relevantChunks \<Rightarrow> Inr (map StoredChunk relevantChunks))"
  using assms by (simp add: findRelevantChunks_def)

lemma guide_index_created:
  "created_index None \<lparr>indexes = Map.empty, indexes_writable = True\<rparr> ''u'' ''t'' guide_chunks
     \<lparr>opt_name = Some ''Guide'', storeContent = True\<rparr> = Some guide_index"
  by code_simp

lemma load_relevant_example:
  "findRelevantChunks default_query_config echo_claude named_ids no_files guide_index ''q''
     = Some (Inr [StoredChunk (scored (store_chunk True (guide_chunks ! 1)) ''Plans and prices'' 0),
                  PrototypeMember missing_path_content 1])"
  by code_simp

lemma load_chunks_prototype_example:
  "load_chunks no_files [''a'', ''__proto__'', ''content'', ''b'']
     [(''a'', unstored ''a''), (''b'', unstored ''b'')] False
     [''a'', ''__proto__'', ''content'', ''b'']
   = [StoredChunk (scored (unstored ''a'')
                     ''[Content not available - source file not found: doc.txt]'' 0),
      PrototypeMember missing_path_content 1,
      PlaceholderCharacters missing_path_content 2,
      StoredChunk (scored (unstored ''b'') missing_path_content 3)]"
  by code_simp

text \<open>
  Claim C7. When the primary strategy fails, \<open>findRelevantChunks\<close> returns what the keyword
  strategy returns (\<open>findRelevantChunks_falls_back\<close>); the claim says that this is always
  a list. The keyword strategy looks each word of the question up with
  \<open>index.keywordsIndex[keyword] || []\<close>, which is written to give no matches for a word
  that is no keyword. For a word that names a member inherited from \<open>Object.prototype\<close>
  the lookup finds that member instead of nothing, the loop over it throws, and the
  handler of the strategy throws the error again. So with a collaborator whose call
  fails, the index that \<open>createIndex\<close> builds from two chunks, and the question
  \<open>Explain the constructor\<close>, the retrieval ends in a \<open>TypeError\<close>, where the claim
  promises a list; on the same index the question \<open>What about pricing\<close> returns the chunk
  with that keyword.
\<close>

theorem C7_fallback_throws_on_inherited_word:
  "created_index None \<lparr>indexes = Map.empty, indexes_writable = True\<rparr> ''u'' ''t'' guide_chunks
     \<lparr>opt_name = Some ''Guide'', storeContent = True\<rparr> = Some guide_index
   \<and> primary_strategy default_query_config failing_claude no_ids guide_index
        ''Explain the constructor''
       = Some (Inl (Error ''Failed to get response from Claude: overloaded''))
   \<and> extractKeywordsFromQuestion default_query_config ''Explain the constructor''
       = [''explain'', ''constructor'']
   \<and> js_get (idx_keywordsIndex guide_index) ''explain'' = Undefined
   \<and> js_get (idx_keywordsIndex guide_index) ''constructor'' = Inherited
   \<and> findRelevantChunksWithKeywords default_query_config no_files guide_index
        ''Explain the constructor''
       = Inl (TypeError ''matchingChunkIds is not iterable'')
   \<and> findRelevantChunks default_query_config failing_claude no_ids no_files guide_index
        ''Explain the constructor''
       = Some (Inl (TypeError ''matchingChunkIds is not iterable''))
   \<and> findRelevantChunks default_query_config failing_claude no_ids no_files guide_index
        ''What about pricing''
       = Some (Inr [StoredChunk
                      (scored (store_chunk True (guide_chunks ! 1)) ''Plans and prices'' 1)])"
proof (intro conjI)
  show "created_index None \<lparr>indexes = Map.empty, indexes_writable = True\<rparr> ''u'' ''t'' guide_chunks
     \<lparr>opt_name = Some ''Guide'', storeContent = True\<rparr> = Some guide_index"
    by (rule guide_index_created)
  show "primary_strategy default_query_config failing_claude no_ids guide_index
        ''Explain the constructor''
       = Some (Inl (Error ''Failed to get response from Claude: overloaded''))"
    by code_simp
  show "extractKeywordsFromQuestion default_query_config ''Explain the constructor''
       = [''explain'', ''constructor'']"
    by code_simp
  show "js_get (idx_keywordsIndex guide_index) ''explain'' = Undefined"
    by code_simp
  show "js_get (idx_keywordsIndex guide_index) ''constructor'' = Inherited"
    by code_simp
  show "findRelevantChunksWithKeywords default_query_config no_files guide_index
        ''Explain the constructor''
       = Inl (TypeError ''matchingChunkIds is not iterable'')"
    by code_simp
  show "findRelevantChunks default_query_config failing_claude no_ids no_files guide_index
        ''Explain the constructor''
       = Some (Inl (TypeError ''matchingChunkIds is not iterable''))"
    by code_simp
  show "findRelevantChunks default_query_config failing_claude no_ids no_files guide_index
        ''What about pricing''
       = Some (Inr [StoredChunk
                      (scored (store_chunk True (guide_chunks ! 1)) ''Plans and prices'' 1)])"
    by code_simp
qed

section \<open>Properties of the iterative synthesizer\<close>

lemma js_sort_Nil: "js_sort cmp [] = []"
  by (simp add: js_sort_def)

lemma length_insert_cmp: "length (insert_cmp cmp x xs) = Suc (length xs)"
  by (induction xs) simp_all

lemma length_js_sort: "length (js_sort cmp xs) = length xs"
  by (induction xs) (simp_all add: js_sort_def length_insert_cmp)

lemma paced_append:
  "paced R evs \<Longrightarrow> paced R evs' \<Longrightarrow> paced R (evs @ evs')"
  by (induction R evs rule: paced.induct) simp_all

lemma process_chunks_paced:
  "paced R (snd (process_chunks R claude q history n i cs cur))"
proof (induction cs arbitrary: i cur)
  case Nil
  then show ?case by simp
next
  case (Cons chunk rest)
  show ?case
  proof (cases "claude (buildChunkPrompt q chunk cur history i n)")
    case (Inl e)
    then show ?thesis
      by (simp add: Let_def calculateWaitTime_def buildChunkPrompt_def)
  next
    case (Inr chunkResponse)
    with Cons.IH [of "Suc i" chunkResponse] show ?thesis
      by (simp add: Let_def calculateWaitTime_def buildChunkPrompt_def case_prod_unfold)
  qed
qed

lemma process_chunks_no_final:
  "filter is_final_send (snd (process_chunks R claude q history n i cs cur)) = []"
proof (induction cs arbitrary: i cur)
  case Nil
  then show ?case by simp
next
  case (Cons chunk rest)
  show ?case
  proof (cases "claude (buildChunkPrompt q chunk cur history i n)")
    case (Inl e)
    then show ?thesis
      by (simp add: Let_def buildChunkPrompt_def)
  next
    case (Inr chunkResponse)
    with Cons.IH [of "Suc i" chunkResponse] show ?thesis
      by (simp add: Let_def buildChunkPrompt_def case_prod_unfold)
  qed
qed

lemma generateAnswer_paced:
  "paced (js_or (tokenRatePerMinute cfg) 50000) (snd (generateAnswer cfg claude q chunks history))"
proof -
  define R where "R = js_or (tokenRatePerMinute cfg) 50000"
  define sorted_cs where "sorted_cs = js_sort compare_relevance chunks"
  obtain r evs where pc: "process_chunks R claude q history (length sorted_cs) 0 sorted_cs [] = (r, evs)"
    by (cases "process_chunks R claude q history (length sorted_cs) 0 sorted_cs []")
  from process_chunks_paced [of R claude q history "length sorted_cs" 0 sorted_cs "[]"] pc
  have evs: "paced R evs" by simp
  have fin: "paced R (evs @ [Sleep (calculateWaitTime R cur) , Send (FinalSummaryPrompt q cur)])" for cur
    by (intro paced_append evs) (simp add: calculateWaitTime_def Let_def)
  show ?thesis
    unfolding generateAnswer_def R_def [symmetric] sorted_cs_def [symmetric] Let_def pc
    using evs fin by (cases r) (simp_all split: sum.splits)
qed

lemma generateAnswer_final_sends:
  "length (filter is_final_send (snd (generateAnswer cfg claude q chunks history)))
     \<le> (if 1 < length chunks then 1 else 0)"
proof -
  define R where "R = js_or (tokenRatePerMinute cfg) 50000"
  define sorted_cs where "sorted_cs = js_sort compare_relevance chunks"
  obtain r evs where pc: "process_chunks R claude q history (length sorted_cs) 0 sorted_cs [] = (r, evs)"
    by (cases "process_chunks R claude q history (length sorted_cs) 0 sorted_cs []")
  from process_chunks_no_final [of R claude q history "length sorted_cs" 0 sorted_cs "[]"] pc
  have evs: "filter is_final_send evs = []" by simp
  have len: "length sorted_cs = length chunks" by (simp add: sorted_cs_def length_js_sort)
  show ?thesis
    unfolding generateAnswer_def R_def [symmetric] sorted_cs_def [symmetric] Let_def pc
    using evs len by (cases r) (simp_all split: sum.splits)
qed

lemma generateAnswer_empty: "generateAnswer cfg claude q [] history = (Inr [], [])"
  by (simp add: generateAnswer_def js_sort_Nil)

lemma fl_one_tenth: "fl (1 / 10) = 3602879701896397 / 36028797018963968"
  \<comment> \<open>The double written \<open>0.1\<close> is \<open>3602879701896397 / 2^55\<close>.\<close>
  by code_simp

lemma fl_representable: "fl 1 = 1" "fl (1930 / 4) = 1930 / 4" "fl 9007199254740993 = 9007199254740992"
  \<comment> \<open>Integers and quarters of this size are doubles; \<open>2^53 + 1\<close> is not, and the tie
      goes to the even significand.\<close>
  by code_simp+

lemma calculateWaitTime_length:
  "calculateWaitTime R s
     = max 500 \<lceil>js_mul (js_mul (js_div (js_div (of_nat (length s)) 4) (of_int R)) 60) 1000\<rceil>"
  by (simp add: calculateWaitTime_def Let_def)

lemma double_quotient_1930:
  "max 500 \<lceil>js_mul (js_mul (js_div (js_div 1930 4) 50000) 60) 1000\<rceil> = 580"
  by code_simp

lemma calculateWaitTime_default_rate_example:
  "length s = 1930 \<Longrightarrow> calculateWaitTime 50000 s = 580"
  using double_quotient_1930 by (simp add: calculateWaitTime_length)

lemma exact_quotient_1930: "max 500 \<lceil>(1930 / 4) / 50000 * 60 * 1000 :: rat\<rceil> = 579"
  by simp

text \<open>
  Claim C9. \<open>_calculateWaitTime\<close> returns \<open>max(500, ceil((L / 4) / R * 60 * 1000))\<close> for an
  input of length \<open>L\<close> and the rate \<open>R\<close>, each operation being the double-precision one that
  JavaScript performs; and for a configured rate \<open>R\<close> (other than 0, which the source
  replaces by 50000) every collaborator call of \<open>generateAnswer\<close> is preceded by a sleep of
  that length for the content of the chunk sent (for the compiled answer, before the
  final call). The rounding shows in the result: for 1930 characters at the default rate
  the interval is 580 ms (\<open>calculateWaitTime_default_rate_example\<close>), one more than the
  quotient of the real numbers gives (\<open>exact_quotient_1930\<close>).
\<close>

theorem C9_pacing_interval:
  "calculateWaitTime R s
     = max 500 \<lceil>js_mul (js_mul (js_div (js_div (of_nat (length s)) 4) (of_int R)) 60) 1000\<rceil>
   \<and> (tokenRatePerMinute cfg = Some R \<and> R \<noteq> 0
        \<longrightarrow> paced R (snd (generateAnswer cfg claude q relevantChunks history)))"
proof (intro conjI impI)
  show "calculateWaitTime R s
     = max 500 \<lceil>js_mul (js_mul (js_div (js_div (of_nat (length s)) 4) (of_int R)) 60) 1000\<rceil>"
    by (rule calculateWaitTime_length)
next
  assume "tokenRatePerMinute cfg = Some R \<and> R \<noteq> 0"
  then have "js_or (tokenRatePerMinute cfg) 50000 = R"
    by (simp add: js_or_def)
  with generateAnswer_paced [of cfg claude q relevantChunks history]
  show "paced R (snd (generateAnswer cfg claude q relevantChunks history))"
    by simp
qed

theorem C9_pacing_interval_witness:
  "tokenRatePerMinute \<lparr>tokenRatePerMinute = Some 50000\<rparr> = Some 50000 \<and> (50000 :: int) \<noteq> 0
   \<and> snd (generateAnswer \<lparr>tokenRatePerMinute = Some 50000\<rparr> echo_claude ''q'' [long_chunk] [])
       = [Sleep 580, Send (ChunkPrompt ''q'' long_text [] [] 0 1)]
   \<and> paced 50000
        (snd (generateAnswer \<lparr>tokenRatePerMinute = Some 50000\<rparr> echo_claude ''q'' [long_chunk] []))"
proof -
  have w: "calculateWaitTime 50000 long_text = 580"
    by (rule calculateWaitTime_default_rate_example) (simp add: long_text_def)
  have t: "snd (generateAnswer \<lparr>tokenRatePerMinute = Some 50000\<rparr> echo_claude ''q'' [long_chunk] [])
       = [Sleep 580, Send (ChunkPrompt ''q'' long_text [] [] 0 1)]"
    by (simp add: generateAnswer_def js_or_def js_sort_def long_chunk_def Let_def
        buildChunkPrompt_def echo_claude_def w)
  have h: "tokenRatePerMinute \<lparr>tokenRatePerMinute = Some 50000\<rparr> = Some 50000 \<and> (50000 :: int) \<noteq> 0"
    by simp
  from C9_pacing_interval [of 50000 "[]" "\<lparr>tokenRatePerMinute = Some 50000\<rparr>" echo_claude
      "''q''" "[long_chunk]" "[]"] h
  have "paced 50000
        (snd (generateAnswer \<lparr>tokenRatePerMinute = Some 50000\<rparr> echo_claude ''q'' [long_chunk] []))"
    by blast
  with h t show ?thesis by blast
qed

text \<open>
  Claim C10. For an empty list of chunks \<open>generateAnswer\<close> returns the empty string and
  its trace is empty: no sleep, no collaborator call, no final call. For any list of
  chunks the trace holds at most one final call, and none unless more than one chunk
  was passed.
\<close>

theorem C10_no_chunks_no_calls:
  "generateAnswer cfg claude q [] history = (Inr [], [])
   \<and> length (filter is_final_send (snd (generateAnswer cfg claude q relevantChunks history)))
       \<le> (if 1 < length relevantChunks then 1 else 0)"
  using generateAnswer_empty [of cfg claude q history]
    generateAnswer_final_sends [of cfg claude q relevantChunks history]
  by simp

theorem C10_no_chunks_no_calls_witness:
  "generateAnswer \<lparr>tokenRatePerMinute = None\<rparr> failing_claude ''q'' [] ''history'' = (Inr [], [])
   \<and> length (filter is_final_send
        (snd (generateAnswer \<lparr>tokenRatePerMinute = None\<rparr> failing_claude ''q'' [long_chunk]
                ''history''))) \<le> 0"
  using C10_no_chunks_no_calls [of "\<lparr>tokenRatePerMinute = None\<rparr>" failing_claude "''q''"
      "''history''" "[long_chunk]"]
  by simp

end
